theory Spec2Isabelle
  imports Complex_Main "HOL-Library.AList"
begin

section \<open>Syntax trees\<close>

text \<open>
  The visitors of \<^verbatim>\<open>radon/visitors.py\<close> walk the trees of Python's \<^verbatim>\<open>ast\<close> module and
  select their behaviour by the name of a node's class and by its attributes. A tree is
  therefore modelled as the parser hands it over: a node is its class name together with
  its attributes in the order of \<^verbatim>\<open>_fields\<close> (the position attributes \<^verbatim>\<open>lineno\<close> and
  \<^verbatim>\<open>col_offset\<close> are kept in the same list; they hold integers, which the generic
  traversal skips). An attribute holds \<^verbatim>\<open>None\<close>, a constant, a list or another node.
\<close>

datatype val =
    VNone
  | VBool bool
  | VInt int
  | VStr string
  | VFloat rat
  | VBytes string
  | VEllipsis
  | VList "val list"
  | AST string "(string \<times> val) list"

text \<open>
  A result \<open>None\<close> of a model function stands for a traversal that does not complete: the
  source raises (\<^verbatim>\<open>AttributeError\<close> for a missing attribute, \<^verbatim>\<open>TypeError\<close>, \<^verbatim>\<open>KeyError\<close>,
  \<^verbatim>\<open>UnboundLocalError\<close>), or an attribute holds a value of a type the grammar of \<^verbatim>\<open>ast\<close>
  excludes at that place (a name that is not a string, a body that is not a list).
\<close>

fun getattr :: "val \<Rightarrow> string \<Rightarrow> val option" where
  "getattr (AST k fs) a = map_of fs a"
| "getattr _ a = None"

fun is_AST :: "val \<Rightarrow> bool" where
  "is_AST (AST k fs) = True"
| "is_AST _ = False"

fun get_name :: "val \<Rightarrow> string" where
  "get_name (AST k fs) = k"
| "get_name VNone = ''NoneType''"
| "get_name (VBool b) = ''bool''"
| "get_name (VInt i) = ''int''"
| "get_name (VStr s) = ''str''"
| "get_name (VFloat r) = ''float''"
| "get_name (VBytes s) = ''bytes''"
| "get_name VEllipsis = ''ellipsis''"
| "get_name (VList xs) = ''list''"

definition isinstance :: "val \<Rightarrow> string \<Rightarrow> bool" where
  "isinstance v cls = (is_AST v \<and> get_name v = cls)"

fun truthy :: "val \<Rightarrow> bool" where
  "truthy VNone = False"
| "truthy (VBool b) = b"
| "truthy (VInt i) = (i \<noteq> 0)"
| "truthy (VStr s) = (s \<noteq> [])"
| "truthy (VFloat r) = (r \<noteq> 0)"
| "truthy (VBytes s) = (s \<noteq> [])"
| "truthy VEllipsis = True"
| "truthy (VList xs) = (xs \<noteq> [])"
| "truthy (AST k fs) = True"

fun as_list :: "val \<Rightarrow> val list option" where
  "as_list (VList xs) = Some xs"
| "as_list _ = None"

fun as_str :: "val \<Rightarrow> string option" where
  "as_str (VStr s) = Some s"
| "as_str _ = None"

fun as_int :: "val \<Rightarrow> int option" where
  "as_int (VInt i) = Some i"
| "as_int (VBool b) = Some (if b then 1 else 0)"
| "as_int _ = None"

definition get_list :: "val \<Rightarrow> string \<Rightarrow> val list option" where
  "get_list node a = (case getattr node a of None \<Rightarrow> None | Some x \<Rightarrow> as_list x)"

definition get_str :: "val \<Rightarrow> string \<Rightarrow> string option" where
  "get_str node a = (case getattr node a of None \<Rightarrow> None | Some x \<Rightarrow> as_str x)"

definition get_int :: "val \<Rightarrow> string \<Rightarrow> int option" where
  "get_int node a = (case getattr node a of None \<Rightarrow> None | Some x \<Rightarrow> as_int x)"

text \<open>
  \<^verbatim>\<open>ast.NodeVisitor.generic_visit\<close> runs over the fields of a node; for a field holding a
  list it visits the items that are nodes, for a field holding a node it visits that node.
  \<open>iter_child_nodes\<close> lists the nodes visited, in that order.
\<close>

fun iter_child_nodes :: "(string \<times> val) list \<Rightarrow> val list" where
  "iter_child_nodes [] = []"
| "iter_child_nodes ((f, VList items) # fs) = filter is_AST items @ iter_child_nodes fs"
| "iter_child_nodes ((f, AST k a) # fs) = AST k a # iter_child_nodes fs"
| "iter_child_nodes ((f, _) # fs) = iter_child_nodes fs"

text \<open>A loop that threads the visitor through a list of nodes and stops at the first failure.\<close>

fun foldM :: "('s \<Rightarrow> 'a \<Rightarrow> 's option) \<Rightarrow> 's \<Rightarrow> 'a list \<Rightarrow> 's option" where
  "foldM f s [] = Some s"
| "foldM f s (x # xs) = (case f s x of None \<Rightarrow> None | Some s' \<Rightarrow> foldM f s' xs)"

lemma foldM_cong [fundef_cong]:
  "xs = ys \<Longrightarrow> s = t \<Longrightarrow> (\<And>x u. x \<in> set ys \<Longrightarrow> f u x = g u x)
    \<Longrightarrow> foldM f s xs = foldM g t ys"
  by (induction ys arbitrary: xs s t) (auto split: option.splits)

lemma foldM_append:
  "foldM f s (xs @ ys) = (case foldM f s xs of None \<Rightarrow> None | Some s' \<Rightarrow> foldM f s' ys)"
  by (induction xs arbitrary: s) (auto split: option.splits)

lemma size_mem: "x \<in> set (b :: val list) \<Longrightarrow> size x \<le> size_list size b"
  by (rule size_list_estimation'[OF _ le_refl])

lemma size_map_of:
  "map_of fs a = Some v \<Longrightarrow> size v < Suc (size_list (size_prod (\<lambda>_. 0) size) fs)"
  by (induction fs) (auto split: if_splits)

lemma size_child:
  "x \<in> set (iter_child_nodes fs) \<Longrightarrow> size x < Suc (size_list (size_prod (\<lambda>_. 0) size) fs)"
proof (induction fs rule: iter_child_nodes.induct)
  case (2 f items fs)
  then show ?case using size_mem[of x items] by auto
qed auto

lemma size_items:
  "map_of fs a = Some (VList b) \<Longrightarrow> x \<in> set b
    \<Longrightarrow> size x < Suc (size_list (size_prod (\<lambda>_. 0) size) fs)"
  using size_map_of[of fs a "VList b"] size_mem[of x b] by auto

lemma size_get_list:
  "get_list (AST k fs) a = Some b \<Longrightarrow> x \<in> set b
    \<Longrightarrow> size x < Suc (size_list (size_prod (\<lambda>_. 0) size) fs)"
  by (cases "map_of fs a"; cases "the (map_of fs a)")
     (auto simp: get_list_def dest: size_items)

section \<open>Result records\<close>

datatype Function =
  Function (Function_name: string) (Function_lineno: int) (Function_col_offset: val)
    (Function_endline: int) (Function_is_method: bool) (Function_classname: "string option")
    (Function_closures: "Function list") (Function_complexity: int)

datatype Class =
  Class (Class_name: string) (Class_lineno: int) (Class_col_offset: val)
    (Class_endline: int) (Class_methods: "Function list") (Class_inner_classes: "Class list")
    (Class_real_complexity: int)



section \<open>ComplexityVisitor\<close>

record ComplexityVisitor =
  CV_off :: bool
  CV_complexity :: int
  CV_functions :: "Function list"
  CV_classes :: "Class list"
  CV_to_method :: bool
  CV_classname :: "string option"
  CV_no_assert :: bool
  CV_max_line :: "int option"

text \<open>The constructor. \<open>CV_max_line = None\<close> is the initial \<^verbatim>\<open>float("-inf")\<close>.\<close>

definition ComplexityVisitor_init ::
  "bool \<Rightarrow> string option \<Rightarrow> bool \<Rightarrow> bool \<Rightarrow> ComplexityVisitor" where
  "ComplexityVisitor_init to_method classname off no_assert =
     \<lparr>CV_off = off, CV_complexity = (if off then 1 else 0), CV_functions = [],
      CV_classes = [], CV_to_method = to_method, CV_classname = classname,
      CV_no_assert = no_assert, CV_max_line = None\<rparr>"

definition functions_complexity :: "ComplexityVisitor \<Rightarrow> int" where
  "functions_complexity v =
     sum_list (map Function_complexity (CV_functions v)) - int (length (CV_functions v))"

definition classes_complexity :: "ComplexityVisitor \<Rightarrow> int" where
  "classes_complexity v =
     sum_list (map Class_real_complexity (CV_classes v)) - int (length (CV_classes v))"

definition total_complexity :: "ComplexityVisitor \<Rightarrow> int" where
  "total_complexity v =
     CV_complexity v + functions_complexity v + classes_complexity v
       + (if CV_off v then 0 else 1)"

text \<open>The setter of \<^verbatim>\<open>max_line\<close>.\<close>

definition set_max_line :: "ComplexityVisitor \<Rightarrow> int \<Rightarrow> ComplexityVisitor" where
  "set_max_line v value =
     (if (case CV_max_line v of None \<Rightarrow> True | Some m \<Rightarrow> value > m)
      then v\<lparr>CV_max_line := Some value\<rparr> else v)"

text \<open>\<^verbatim>\<open>if hasattr(node, "lineno"): self.max_line = node.lineno\<close>\<close>

definition note_lineno :: "ComplexityVisitor \<Rightarrow> val \<Rightarrow> ComplexityVisitor option" where
  "note_lineno v node =
     (case getattr node ''lineno'' of
        None \<Rightarrow> Some v
      | Some l \<Rightarrow> (case as_int l of None \<Rightarrow> None | Some i \<Rightarrow> Some (set_max_line v i)))"

text \<open>
  The test of a \<^verbatim>\<open>Match\<close> node for a wildcard case:
  \<^verbatim>\<open>any(case for case in node.cases if getattr(case.pattern, "pattern", False) is None)\<close>.
  The generator is consumed up to the first case it yields.
\<close>

fun contain_underscore :: "val list \<Rightarrow> bool option" where
  "contain_underscore [] = Some False"
| "contain_underscore (c # cs) =
     (case getattr c ''pattern'' of
        None \<Rightarrow> None
      | Some p \<Rightarrow> if getattr p ''pattern'' = Some VNone then Some True
                  else contain_underscore cs)"

text \<open>
  The chain of tests on the class name in \<^verbatim>\<open>generic_visit\<close>: the amount added to
  \<^verbatim>\<open>self.complexity\<close> for the node itself.
\<close>

definition decision_points :: "string \<Rightarrow> val \<Rightarrow> int option" where
  "decision_points name node =
     (if name = ''Try'' \<or> name = ''TryExcept'' then
        (case (get_list node ''handlers'', getattr node ''orelse'') of
           (Some handlers, Some orelse) \<Rightarrow>
              Some (int (length handlers) + (if truthy orelse then 1 else 0))
         | _ \<Rightarrow> None)
      else if name = ''BoolOp'' then
        (case get_list node ''values'' of
           Some values \<Rightarrow> Some (int (length values) - 1)
         | None \<Rightarrow> None)
      else if name = ''If'' \<or> name = ''IfExp'' then Some 1
      else if name = ''Match'' then
        (case get_list node ''cases'' of
           Some cases \<Rightarrow>
             (case contain_underscore cases of
                Some u \<Rightarrow> Some (max 0 (int (length cases) - (if u then 1 else 0)))
              | None \<Rightarrow> None)
         | None \<Rightarrow> None)
      else if name = ''For'' \<or> name = ''While'' \<or> name = ''AsyncFor'' then
        (case getattr node ''orelse'' of
           Some orelse \<Rightarrow> Some ((if truthy orelse then 1 else 0) + 1)
         | None \<Rightarrow> None)
      else if name = ''comprehension'' then
        (case get_list node ''ifs'' of
           Some ifs \<Rightarrow> Some (int (length ifs) + 1)
         | None \<Rightarrow> None)
      else Some 0)"

text \<open>
  \<^verbatim>\<open>visit_FunctionDef\<close> once the sub-visitors of the body statements have run: the loop
  collects the closures and the body complexity; \<^verbatim>\<open>visitor\<close> after the loop is the
  sub-visitor of the last statement, and is unbound for an empty body.
\<close>

definition FunctionDef_loop :: "ComplexityVisitor list \<Rightarrow> Function list \<times> int" where
  "FunctionDef_loop visitors =
     fold (\<lambda>visitor (closures, body_complexity).
             (closures @ CV_functions visitor, body_complexity + CV_complexity visitor))
       visitors ([], 1)"

definition max_with_line :: "int \<Rightarrow> int option \<Rightarrow> int" where
  "max_with_line l m = (case m of None \<Rightarrow> l | Some x \<Rightarrow> max l x)"

definition visit_FunctionDef_record ::
  "ComplexityVisitor \<Rightarrow> val \<Rightarrow> ComplexityVisitor list \<Rightarrow> ComplexityVisitor option" where
  "visit_FunctionDef_record v node visitors =
     (case (get_str node ''name'', get_int node ''lineno'', getattr node ''col_offset'') of
        (Some name, Some lineno, Some col_offset) \<Rightarrow>
          if visitors = [] then None
          else
            let (closures, body_complexity) = FunctionDef_loop visitors;
                func = Function name lineno col_offset
                         (max_with_line lineno (CV_max_line (last visitors)))
                         (CV_to_method v) (CV_classname v) closures body_complexity
            in Some (v\<lparr>CV_functions := CV_functions v @ [func]\<rparr>)
      | _ \<Rightarrow> None)"

text \<open>\<^verbatim>\<open>visit_ClassDef\<close> once the sub-visitors of the body statements have run.\<close>

definition ClassDef_loop ::
  "int \<Rightarrow> ComplexityVisitor list \<Rightarrow> Function list \<times> int \<times> int option list \<times> Class list" where
  "ClassDef_loop lineno visitors =
     fold (\<lambda>visitor (methods, body_complexity, visitors_max_lines, inner_classes).
             (methods @ CV_functions visitor,
              body_complexity
                + (CV_complexity visitor + functions_complexity visitor
                   + int (length (CV_functions visitor))),
              visitors_max_lines @ [CV_max_line visitor],
              inner_classes @ CV_classes visitor))
       visitors ([], 1, [Some lineno], [])"

definition visit_ClassDef_record ::
  "ComplexityVisitor \<Rightarrow> val \<Rightarrow> ComplexityVisitor list \<Rightarrow> ComplexityVisitor option" where
  "visit_ClassDef_record v node visitors =
     (case (get_str node ''name'', get_int node ''lineno'', getattr node ''col_offset'') of
        (Some classname, Some lineno, Some col_offset) \<Rightarrow>
          let (methods, body_complexity, visitors_max_lines, inner_classes) =
                ClassDef_loop lineno visitors;
              cls = Class classname lineno col_offset
                      (fold (\<lambda>m l. max_with_line l m)
                         (visitors_max_lines @ map (Some \<circ> Function_endline) methods) lineno)
                      methods inner_classes body_complexity
          in Some (v\<lparr>CV_classes := CV_classes v @ [cls]\<rparr>)
      | _ \<Rightarrow> None)"

text \<open>
  \<^verbatim>\<open>visit\<close> looks for a method \<^verbatim>\<open>visit_<class name>\<close> and falls back on \<^verbatim>\<open>generic_visit\<close>.
  The visitor defines \<^verbatim>\<open>visit_Assert\<close>, \<^verbatim>\<open>visit_FunctionDef\<close>, \<^verbatim>\<open>visit_AsyncFunctionDef\<close>
  and \<^verbatim>\<open>visit_ClassDef\<close>; the last branch is \<^verbatim>\<open>generic_visit\<close>. A value that is not a
  node has no \<^verbatim>\<open>_fields\<close>.
\<close>

function ComplexityVisitor_visit :: "ComplexityVisitor \<Rightarrow> val \<Rightarrow> ComplexityVisitor option"
  where
  "ComplexityVisitor_visit v (AST name fs) =
     (if name = ''Assert'' then
        Some (v\<lparr>CV_complexity := CV_complexity v + (if CV_no_assert v then 0 else 1)\<rparr>)
      else if name = ''FunctionDef'' \<or> name = ''AsyncFunctionDef'' then
        (case get_list (AST name fs) ''body'' of
           None \<Rightarrow> None
         | Some body \<Rightarrow>
             (case those (map (ComplexityVisitor_visit
                                 (ComplexityVisitor_init False None False (CV_no_assert v)))
                              body) of
                None \<Rightarrow> None
              | Some visitors \<Rightarrow> visit_FunctionDef_record v (AST name fs) visitors))
      else if name = ''ClassDef'' then
        (case (get_str (AST name fs) ''name'', get_list (AST name fs) ''body'') of
           (Some classname, Some body) \<Rightarrow>
             (case those (map (ComplexityVisitor_visit
                                 (ComplexityVisitor_init True (Some classname) False
                                    (CV_no_assert v)))
                              body) of
                None \<Rightarrow> None
              | Some visitors \<Rightarrow> visit_ClassDef_record v (AST name fs) visitors)
         | _ \<Rightarrow> None)
      else
        (case note_lineno v (AST name fs) of
           None \<Rightarrow> None
         | Some v1 \<Rightarrow>
             (case decision_points name (AST name fs) of
                None \<Rightarrow> None
              | Some d \<Rightarrow>
                  foldM ComplexityVisitor_visit
                    (v1\<lparr>CV_complexity := CV_complexity v1 + d\<rparr>)
                    (iter_child_nodes fs))))"
| "ComplexityVisitor_visit v VNone = None"
| "ComplexityVisitor_visit v (VBool b) = None"
| "ComplexityVisitor_visit v (VInt i) = None"
| "ComplexityVisitor_visit v (VStr s) = None"
| "ComplexityVisitor_visit v (VFloat r) = None"
| "ComplexityVisitor_visit v (VBytes s) = None"
| "ComplexityVisitor_visit v VEllipsis = None"
| "ComplexityVisitor_visit v (VList xs) = None"
  by pat_completeness auto
termination
  by (relation "measure (\<lambda>(v, n). size n)")
     (auto simp: size_child size_get_list size_get_list [OF sym])

subsection \<open>The nodes a visitor reaches\<close>

text \<open>
  The kinds for which the visitor has a method of its own. None of these methods calls
  \<^verbatim>\<open>generic_visit\<close>: the statements below an \<^verbatim>\<open>Assert\<close> are not visited at all, and the
  body of a function or class definition is visited by fresh sub-visitors.
\<close>

definition handled_by_method :: "string \<Rightarrow> bool" where
  "handled_by_method name =
     (name = ''Assert'' \<or> name = ''FunctionDef'' \<or> name = ''AsyncFunctionDef''
      \<or> name = ''ClassDef'')"

text \<open>The nodes on which one visitor is called while it visits a tree, in order.\<close>

function reached :: "val \<Rightarrow> val list" where
  "reached (AST name fs) =
     (if handled_by_method name then [AST name fs]
      else AST name fs # concat (map reached (iter_child_nodes fs)))"
| "reached VNone = []"
| "reached (VBool b) = []"
| "reached (VInt i) = []"
| "reached (VStr s) = []"
| "reached (VFloat r) = []"
| "reached (VBytes s) = []"
| "reached VEllipsis = []"
| "reached (VList xs) = []"
  by pat_completeness auto
termination
  by (relation "measure size") (auto simp: size_child)

text \<open>What a reached node adds to the counter of the visitor, by itself.\<close>

definition own_points :: "bool \<Rightarrow> val \<Rightarrow> int" where
  "own_points no_assert node =
     (if get_name node = ''Assert'' then (if no_assert then 0 else 1)
      else if handled_by_method (get_name node) then 0
      else (case decision_points (get_name node) node of Some d \<Rightarrow> d | None \<Rightarrow> 0))"

definition operands :: "val \<Rightarrow> val list" where
  "operands node = (case get_list node ''values'' of Some values \<Rightarrow> values | None \<Rightarrow> [])"

definition cases_of :: "val \<Rightarrow> val list" where
  "cases_of node = (case get_list node ''cases'' of Some cases \<Rightarrow> cases | None \<Rightarrow> [])"

text \<open>
  The wildcard of the specification, in its words: a case whose pattern is the universal
  pattern, that is a \<^verbatim>\<open>MatchAs\<close> node without a sub-pattern (\<^verbatim>\<open>case _:\<close>, or a bare capture
  name); \<open>has_wildcard_case\<close> is 1 if any case is one.
\<close>

definition is_wildcard_case :: "val \<Rightarrow> bool" where
  "is_wildcard_case c =
     (case getattr c ''pattern'' of
        Some p \<Rightarrow> getattr p ''pattern'' = Some VNone
      | None \<Rightarrow> False)"

definition has_wildcard_case :: "val \<Rightarrow> int" where
  "has_wildcard_case node = (if list_ex is_wildcard_case (cases_of node) then 1 else 0)"

section \<open>Nodes as the parser builds them\<close>

text \<open>
  Constructors for the node classes used in the examples, with the fields of \<^verbatim>\<open>ast\<close> in
  their order. \<open>located\<close> adds the position attributes of a statement or expression.
\<close>

definition Load :: val where "Load = AST ''Load'' []"
definition Store :: val where "Store = AST ''Store'' []"
definition mk_Name :: "string \<Rightarrow> val \<Rightarrow> val" where
  "mk_Name ident ctx = AST ''Name'' [(''id'', VStr ident), (''ctx'', ctx)]"
definition mk_Constant :: "val \<Rightarrow> val" where
  "mk_Constant c = AST ''Constant'' [(''value'', c), (''kind'', VNone)]"
definition mk_Attribute :: "val \<Rightarrow> string \<Rightarrow> val \<Rightarrow> val" where
  "mk_Attribute value attr ctx =
     AST ''Attribute'' [(''value'', value), (''attr'', VStr attr), (''ctx'', ctx)]"
definition mk_Call :: "val \<Rightarrow> val list \<Rightarrow> val" where
  "mk_Call func args =
     AST ''Call'' [(''func'', func), (''args'', VList args), (''keywords'', VList [])]"
definition mk_BoolOp :: "string \<Rightarrow> val list \<Rightarrow> val" where
  "mk_BoolOp op values = AST ''BoolOp'' [(''op'', AST op []), (''values'', VList values)]"
definition mk_BinOp :: "val \<Rightarrow> string \<Rightarrow> val \<Rightarrow> val" where
  "mk_BinOp left op right =
     AST ''BinOp'' [(''left'', left), (''op'', AST op []), (''right'', right)]"
definition mk_Assert :: "val \<Rightarrow> val" where
  "mk_Assert test = AST ''Assert'' [(''test'', test), (''msg'', VNone)]"
definition mk_Expr :: "val \<Rightarrow> val" where
  "mk_Expr value = AST ''Expr'' [(''value'', value)]"
definition mk_Return :: "val \<Rightarrow> val" where
  "mk_Return value = AST ''Return'' [(''value'', value)]"
definition mk_Pass :: val where "mk_Pass = AST ''Pass'' []"
definition mk_Assign :: "val list \<Rightarrow> val \<Rightarrow> val" where
  "mk_Assign targets value =
     AST ''Assign'' [(''targets'', VList targets), (''value'', value),
                     (''type_comment'', VNone)]"
definition mk_If :: "val \<Rightarrow> val list \<Rightarrow> val list \<Rightarrow> val" where
  "mk_If test body orelse =
     AST ''If'' [(''test'', test), (''body'', VList body), (''orelse'', VList orelse)]"
definition mk_Match :: "val \<Rightarrow> val list \<Rightarrow> val" where
  "mk_Match subject cases = AST ''Match'' [(''subject'', subject), (''cases'', VList cases)]"
definition mk_match_case :: "val \<Rightarrow> val list \<Rightarrow> val" where
  "mk_match_case pattern body =
     AST ''match_case'' [(''pattern'', pattern), (''guard'', VNone), (''body'', VList body)]"
definition mk_MatchAs :: "val \<Rightarrow> val \<Rightarrow> val" where
  "mk_MatchAs pattern name = AST ''MatchAs'' [(''pattern'', pattern), (''name'', name)]"
definition mk_MatchValue :: "val \<Rightarrow> val" where
  "mk_MatchValue value = AST ''MatchValue'' [(''value'', value)]"
definition mk_arg :: "string \<Rightarrow> val \<Rightarrow> val" where
  "mk_arg name annotation =
     AST ''arg'' [(''arg'', VStr name), (''annotation'', annotation), (''type_comment'', VNone)]"
definition mk_arguments :: "val list \<Rightarrow> val" where
  "mk_arguments args =
     AST ''arguments'' [(''posonlyargs'', VList []), (''args'', VList args),
       (''vararg'', VNone), (''kwonlyargs'', VList []), (''kw_defaults'', VList []),
       (''kwarg'', VNone), (''defaults'', VList [])]"
definition mk_FunctionDef :: "string \<Rightarrow> val \<Rightarrow> val list \<Rightarrow> val" where
  "mk_FunctionDef name args body =
     AST ''FunctionDef'' [(''name'', VStr name), (''args'', args), (''body'', VList body),
       (''decorator_list'', VList []), (''returns'', VNone), (''type_comment'', VNone)]"
definition mk_AsyncFunctionDef :: "string \<Rightarrow> val \<Rightarrow> val list \<Rightarrow> val" where
  "mk_AsyncFunctionDef name args body =
     AST ''AsyncFunctionDef'' [(''name'', VStr name), (''args'', args), (''body'', VList body),
       (''decorator_list'', VList []), (''returns'', VNone), (''type_comment'', VNone)]"
definition mk_ClassDef :: "string \<Rightarrow> val list \<Rightarrow> val list \<Rightarrow> val" where
  "mk_ClassDef name bases body =
     AST ''ClassDef'' [(''name'', VStr name), (''bases'', VList bases),
       (''keywords'', VList []), (''body'', VList body), (''decorator_list'', VList [])]"
definition mk_Module :: "val list \<Rightarrow> val" where
  "mk_Module body = AST ''Module'' [(''body'', VList body), (''type_ignores'', VList [])]"
definition located :: "int \<Rightarrow> int \<Rightarrow> val \<Rightarrow> val" where
  "located l c node =
     (case node of
        AST k fs \<Rightarrow> AST k (fs @ [(''lineno'', VInt l), (''col_offset'', VInt c)])
      | _ \<Rightarrow> node)"

lemmas mk_defs = Load_def Store_def mk_Name_def mk_Constant_def mk_Attribute_def mk_Call_def
  mk_BoolOp_def mk_BinOp_def mk_Assert_def mk_Expr_def mk_Return_def mk_Pass_def
  mk_Assign_def mk_If_def mk_Match_def mk_match_case_def mk_MatchAs_def mk_MatchValue_def
  mk_arg_def mk_arguments_def mk_FunctionDef_def mk_AsyncFunctionDef_def mk_ClassDef_def
  mk_Module_def located_def

section \<open>Kinds with a decision-point rule\<close>



section \<open>Example programs for ComplexityVisitor\<close>

text \<open>\<^verbatim>\<open>assert a and b and c\<close>\<close>

definition a_and_b_and_c :: val where
  "a_and_b_and_c =
     located 1 7 (mk_BoolOp ''And''
       [located 1 7 (mk_Name ''a'' Load), located 1 13 (mk_Name ''b'' Load),
        located 1 19 (mk_Name ''c'' Load)])"

definition assert_a_and_b_and_c :: val where
  "assert_a_and_b_and_c = located 1 0 (mk_Assert a_and_b_and_c)"

text \<open>
  \<^verbatim>\<open>if a and b:\<close>
  \<^verbatim>\<open>    x = c or d or e\<close>
\<close>

definition if_and_or :: val where
  "if_and_or =
     located 1 0 (mk_If
       (located 1 3 (mk_BoolOp ''And''
          [located 1 3 (mk_Name ''a'' Load), located 1 9 (mk_Name ''b'' Load)]))
       [located 2 4 (mk_Assign [located 2 4 (mk_Name ''x'' Store)]
          (located 2 8 (mk_BoolOp ''Or''
             [located 2 8 (mk_Name ''c'' Load), located 2 13 (mk_Name ''d'' Load),
              located 2 18 (mk_Name ''e'' Load)])))]
       [])"

text \<open>
  \<^verbatim>\<open>match x:\<close>
  \<^verbatim>\<open>    case 1:\<close>
  \<^verbatim>\<open>        pass\<close>
  \<^verbatim>\<open>    case _:\<close>
  \<^verbatim>\<open>        pass\<close>
\<close>

definition match_two_cases :: val where
  "match_two_cases =
     located 1 0 (mk_Match (located 1 6 (mk_Name ''x'' Load))
       [mk_match_case (located 2 9 (mk_MatchValue (located 2 9 (mk_Constant (VInt 1)))))
          [located 3 8 mk_Pass],
        mk_match_case (located 4 9 (mk_MatchAs VNone VNone)) [located 5 8 mk_Pass]])"


lemmas cv_eval = mk_defs ComplexityVisitor_init_def note_lineno_def decision_points_def
  get_list_def get_int_def get_str_def set_max_line_def handled_by_method_def own_points_def

section \<open>LCOMVisitor\<close>

text \<open>
  \<^verbatim>\<open>MethodFieldVisitor\<close>: the state is the set \<^verbatim>\<open>fields_accessed\<close>. \<^verbatim>\<open>visit_Attribute\<close> records
  the attribute name when the base of the attribute expression is the name \<^verbatim>\<open>self\<close>, and
  goes on with \<^verbatim>\<open>generic_visit\<close>; every other node is visited generically.
\<close>

function MethodFieldVisitor_visit :: "string set \<Rightarrow> val \<Rightarrow> string set option" where
  "MethodFieldVisitor_visit fields_accessed (AST name fs) =
     (if name = ''Attribute'' then
        (case getattr (AST name fs) ''value'' of
           None \<Rightarrow> None
         | Some value \<Rightarrow>
             if isinstance value ''Name'' then
               (case getattr value ''id'' of
                  None \<Rightarrow> None
                | Some ident \<Rightarrow>
                    if ident = VStr ''self'' then
                      (case get_str (AST name fs) ''attr'' of
                         None \<Rightarrow> None
                       | Some attr \<Rightarrow>
                           foldM MethodFieldVisitor_visit (insert attr fields_accessed)
                             (iter_child_nodes fs))
                    else foldM MethodFieldVisitor_visit fields_accessed (iter_child_nodes fs))
             else foldM MethodFieldVisitor_visit fields_accessed (iter_child_nodes fs))
      else foldM MethodFieldVisitor_visit fields_accessed (iter_child_nodes fs))"
| "MethodFieldVisitor_visit fields_accessed VNone = None"
| "MethodFieldVisitor_visit fields_accessed (VBool b) = None"
| "MethodFieldVisitor_visit fields_accessed (VInt i) = None"
| "MethodFieldVisitor_visit fields_accessed (VStr s) = None"
| "MethodFieldVisitor_visit fields_accessed (VFloat r) = None"
| "MethodFieldVisitor_visit fields_accessed (VBytes s) = None"
| "MethodFieldVisitor_visit fields_accessed VEllipsis = None"
| "MethodFieldVisitor_visit fields_accessed (VList xs) = None"
  by pat_completeness auto
termination
  by (relation "measure (\<lambda>(v, n). size n)") (auto simp: size_child)

text \<open>
  \<^verbatim>\<open>calculate_lcom\<close>: the two nested loops over the index pairs \<open>i < j\<close>. A missing key
  of \<^verbatim>\<open>method_fields\<close> is a \<^verbatim>\<open>KeyError\<close>.
\<close>

definition lcom_pair ::
  "(string \<rightharpoonup> string set) \<Rightarrow> string list \<Rightarrow> nat \<Rightarrow> int \<times> int \<Rightarrow> nat \<Rightarrow> (int \<times> int) option"
  where
  "lcom_pair method_fields methods i PQ j =
     (case (method_fields (methods ! i), method_fields (methods ! j)) of
        (Some fields_i, Some fields_j) \<Rightarrow>
          (case PQ of (P, Q) \<Rightarrow>
             if fields_i \<noteq> {} \<and> fields_j \<noteq> {} then
               (if fields_i \<inter> fields_j = {} then Some (P + 1, Q) else Some (P, Q + 1))
             else Some (P + 1, Q))
      | _ \<Rightarrow> None)"

definition calculate_lcom :: "(string \<rightharpoonup> string set) \<Rightarrow> string list \<Rightarrow> int option" where
  "calculate_lcom method_fields methods =
     (let num_methods = length methods in
      if num_methods < 2 then Some 0
      else
        (case foldM (\<lambda>PQ i. foldM (lcom_pair method_fields methods i) PQ [i + 1 ..< num_methods])
                (0, 0) [0 ..< num_methods] of
           None \<Rightarrow> None
         | Some (P, Q) \<Rightarrow> Some (if P > Q then P - Q else 0)))"

text \<open>
  The loop of \<^verbatim>\<open>LCOMVisitor.visit_ClassDef\<close> over the class body: only an item that is an
  instance of \<^verbatim>\<open>ast.FunctionDef\<close> is entered in \<^verbatim>\<open>methods\<close> and \<^verbatim>\<open>method_fields\<close>.
\<close>

fun collect_methods ::
  "val list \<Rightarrow> (string \<rightharpoonup> string set) \<times> string list
     \<Rightarrow> ((string \<rightharpoonup> string set) \<times> string list) option" where
  "collect_methods [] acc = Some acc"
| "collect_methods (body_item # rest) (method_fields, methods) =
     (if isinstance body_item ''FunctionDef'' then
        (case get_str body_item ''name'' of
           None \<Rightarrow> None
         | Some method_name \<Rightarrow>
             (case MethodFieldVisitor_visit {} body_item of
                None \<Rightarrow> None
              | Some fields_accessed \<Rightarrow>
                  collect_methods rest
                    (method_fields(method_name \<mapsto> fields_accessed), methods @ [method_name])))
      else collect_methods rest (method_fields, methods))"

text \<open>The state of \<^verbatim>\<open>LCOMVisitor\<close> is the dictionary \<^verbatim>\<open>class_lcoms\<close>, in insertion order.\<close>

definition LCOMVisitor_visit_ClassDef ::
  "(string \<times> int) list \<Rightarrow> val \<Rightarrow> (string \<times> int) list option" where
  "LCOMVisitor_visit_ClassDef class_lcoms node =
     (case (get_str node ''name'', get_list node ''body'') of
        (Some class_name, Some body) \<Rightarrow>
          (case collect_methods body (Map.empty, []) of
             None \<Rightarrow> None
           | Some (method_fields, methods) \<Rightarrow>
               (case calculate_lcom method_fields methods of
                  None \<Rightarrow> None
                | Some lcom \<Rightarrow> Some (AList.update class_name lcom class_lcoms)))
      | _ \<Rightarrow> None)"

function LCOMVisitor_visit :: "(string \<times> int) list \<Rightarrow> val \<Rightarrow> (string \<times> int) list option"
  where
  "LCOMVisitor_visit class_lcoms (AST name fs) =
     (if name = ''ClassDef'' then LCOMVisitor_visit_ClassDef class_lcoms (AST name fs)
      else foldM LCOMVisitor_visit class_lcoms (iter_child_nodes fs))"
| "LCOMVisitor_visit class_lcoms VNone = None"
| "LCOMVisitor_visit class_lcoms (VBool b) = None"
| "LCOMVisitor_visit class_lcoms (VInt i) = None"
| "LCOMVisitor_visit class_lcoms (VStr s) = None"
| "LCOMVisitor_visit class_lcoms (VFloat r) = None"
| "LCOMVisitor_visit class_lcoms (VBytes s) = None"
| "LCOMVisitor_visit class_lcoms VEllipsis = None"
| "LCOMVisitor_visit class_lcoms (VList xs) = None"
  by pat_completeness auto
termination
  by (relation "measure (\<lambda>(v, n). size n)") (auto simp: size_child)

text \<open>\<^verbatim>\<open>analyze_lcom\<close>, from the tree that \<^verbatim>\<open>ast.parse\<close> returns.\<close>

definition analyze_lcom :: "val \<Rightarrow> (string \<times> int) list option" where
  "analyze_lcom tree = LCOMVisitor_visit [] tree"

section \<open>Example programs for LCOMVisitor\<close>

text \<open>Methods \<^verbatim>\<open>def name(self): return self.field + k\<close> and \<^verbatim>\<open>def name(self): return k\<close>.\<close>

definition method_reading :: "string \<Rightarrow> string \<Rightarrow> int \<Rightarrow> val" where
  "method_reading name field k =
     mk_FunctionDef name (mk_arguments [mk_arg ''self'' VNone])
       [mk_Return (mk_BinOp (mk_Attribute (mk_Name ''self'' Load) field Load) ''Add''
          (mk_Constant (VInt k)))]"

definition method_plain :: "string \<Rightarrow> int \<Rightarrow> val" where
  "method_plain name k =
     mk_FunctionDef name (mk_arguments [mk_arg ''self'' VNone])
       [mk_Return (mk_Constant (VInt k))]"

text \<open>
  A class with three methods: two read one field each, \<^verbatim>\<open>a\<close> and \<^verbatim>\<open>b\<close>, and one reads no
  field.
\<close>

definition three_methods_class :: val where
  "three_methods_class =
     mk_ClassDef ''MyClass'' []
       [method_reading ''method_one'' ''a'' 1,
        method_reading ''method_two'' ''b'' 2,
        method_plain ''method_three'' 3]"


text \<open>
  The program of \<^verbatim>\<open>tests/test_lcom.py\<close>: the same three methods after an \<^verbatim>\<open>__init__\<close> that
  assigns both fields.
\<close>

definition test_lcom_program :: val where
  "test_lcom_program =
     mk_Module [mk_ClassDef ''MyClass'' []
       [mk_FunctionDef ''__init__'' (mk_arguments [mk_arg ''self'' VNone])
          [mk_Assign [mk_Attribute (mk_Name ''self'' Load) ''a'' Store] (mk_Constant (VInt 1)),
           mk_Assign [mk_Attribute (mk_Name ''self'' Load) ''b'' Store] (mk_Constant (VInt 2))],
        method_reading ''method_one'' ''a'' 1,
        method_reading ''method_two'' ''b'' 2,
        method_plain ''method_three'' 3]]"

text \<open>The class of \<open>three_methods\<close> with an asynchronous method added.\<close>

definition three_methods_and_async :: val where
  "three_methods_and_async =
     mk_ClassDef ''MyClass'' []
       [method_reading ''method_one'' ''a'' 1,
        mk_AsyncFunctionDef ''fetch'' (mk_arguments [mk_arg ''self'' VNone])
          [mk_Return (mk_Attribute (mk_Name ''self'' Load) ''a'' Load)],
        method_reading ''method_two'' ''b'' 2,
        method_plain ''method_three'' 3]"

lemmas lcom_eval = mk_defs method_reading_def method_plain_def analyze_lcom_def
  LCOMVisitor_visit_ClassDef_def calculate_lcom_def lcom_pair_def isinstance_def
  get_str_def get_list_def

section \<open>HalsteadVisitor\<close>

text \<open>
  The visitor keeps the sets of operators and operands seen, the two totals, its context
  and the visitors of the functions it has scanned, which are visitors themselves. An
  operand is kept as the pair of the context and its resolved value.
\<close>

datatype HalsteadVisitor =
  HalsteadVisitor (HV_operators_seen: "string set") (HV_operands_seen: "(val \<times> val) set")
    (HV_operators: int) (HV_operands: int) (HV_context: val)
    (HV_function_visitors: "HalsteadVisitor list")

definition HalsteadVisitor_init :: "val \<Rightarrow> HalsteadVisitor" where
  "HalsteadVisitor_init context = HalsteadVisitor {} {} 0 0 context []"

definition types :: "(string \<times> string) list" where
  "types = [(''Num'', ''n''), (''Name'', ''id''), (''Attribute'', ''attr''),
            (''Constant'', ''value'')]"

text \<open>
  \<^verbatim>\<open>getattr(operand, self.types.get(name, ""), operand)\<close>: the identifying attribute of the
  operand, or the operand itself. Nodes are compared by structure here, where Python
  compares them by identity, and constants by constructor, where Python has \<open>1 == True\<close>.
\<close>

definition new_operand :: "val \<Rightarrow> val" where
  "new_operand operand =
     (case map_of types (get_name operand) of
        None \<Rightarrow> operand
      | Some a \<Rightarrow> (case getattr operand a of None \<Rightarrow> operand | Some x \<Rightarrow> x))"

fun hashable :: "val \<Rightarrow> bool" where
  "hashable (VList xs) = False"
| "hashable _ = True"

text \<open>
  The tuples returned by the decorated methods \<^verbatim>\<open>visit_BinOp\<close>, \<^verbatim>\<open>visit_UnaryOp\<close>,
  \<^verbatim>\<open>visit_BoolOp\<close>, \<^verbatim>\<open>visit_AugAssign\<close> and \<^verbatim>\<open>visit_Compare\<close>.
\<close>

definition dispatched :: "string \<Rightarrow> bool" where
  "dispatched name =
     (name = ''BinOp'' \<or> name = ''UnaryOp'' \<or> name = ''BoolOp'' \<or> name = ''AugAssign''
      \<or> name = ''Compare'')"

definition results :: "string \<Rightarrow> val \<Rightarrow> (int \<times> int \<times> string list \<times> val list) option" where
  "results name node =
     (if name = ''BinOp'' then
        (case (getattr node ''op'', getattr node ''left'', getattr node ''right'') of
           (Some op, Some left, Some right) \<Rightarrow> Some (1, 2, [get_name op], [left, right])
         | _ \<Rightarrow> None)
      else if name = ''UnaryOp'' then
        (case (getattr node ''op'', getattr node ''operand'') of
           (Some op, Some operand) \<Rightarrow> Some (1, 1, [get_name op], [operand])
         | _ \<Rightarrow> None)
      else if name = ''BoolOp'' then
        (case (getattr node ''op'', get_list node ''values'') of
           (Some op, Some values) \<Rightarrow> Some (1, int (length values), [get_name op], values)
         | _ \<Rightarrow> None)
      else if name = ''AugAssign'' then
        (case (getattr node ''op'', getattr node ''target'', getattr node ''value'') of
           (Some op, Some target, Some value) \<Rightarrow> Some (1, 2, [get_name op], [target, value])
         | _ \<Rightarrow> None)
      else
        (case (get_list node ''ops'', get_list node ''comparators'', getattr node ''left'') of
           (Some ops, Some comparators, Some left) \<Rightarrow>
             Some (int (length ops), int (length comparators) + 1, map get_name ops,
                   comparators @ [left])
         | _ \<Rightarrow> None))"

text \<open>The body of \<^verbatim>\<open>aux\<close> in the decorator \<^verbatim>\<open>dispatch\<close>, before the children are visited.\<close>

definition aux ::
  "HalsteadVisitor \<Rightarrow> int \<times> int \<times> string list \<times> val list \<Rightarrow> HalsteadVisitor option" where
  "aux h r =
     (case r of (n_operators, n_operands, ops, opnds) \<Rightarrow>
        if list_all (\<lambda>operand. hashable (new_operand operand)) opnds then
          Some (HalsteadVisitor
                  (HV_operators_seen h \<union> set ops)
                  (HV_operands_seen h
                     \<union> set (map (\<lambda>operand. (HV_context h, new_operand operand)) opnds))
                  (HV_operators h + n_operators) (HV_operands h + n_operands)
                  (HV_context h) (HV_function_visitors h))
        else None)"

text \<open>
  One round of the loop of \<^verbatim>\<open>visit_FunctionDef\<close>: the sub-visitor of a body statement is
  added to the visitor itself and to the visitor of the function.
\<close>

definition FunctionDef_round ::
  "HalsteadVisitor \<Rightarrow> HalsteadVisitor \<times> HalsteadVisitor \<Rightarrow> HalsteadVisitor \<times> HalsteadVisitor"
  where
  "FunctionDef_round visitor sf =
     (case sf of (self, func_visitor) \<Rightarrow>
        (HalsteadVisitor
           (HV_operators_seen self \<union> HV_operators_seen visitor)
           (HV_operands_seen self \<union> HV_operands_seen visitor)
           (HV_operators self + HV_operators visitor)
           (HV_operands self + HV_operands visitor)
           (HV_context self) (HV_function_visitors self),
         HalsteadVisitor
           (HV_operators_seen func_visitor \<union> HV_operators_seen visitor)
           (HV_operands_seen func_visitor \<union> HV_operands_seen visitor)
           (HV_operators func_visitor + HV_operators visitor)
           (HV_operands func_visitor + HV_operands visitor)
           (HV_context func_visitor) (HV_function_visitors func_visitor)))"

definition HalsteadVisitor_visit_FunctionDef ::
  "HalsteadVisitor \<Rightarrow> val \<Rightarrow> HalsteadVisitor list \<Rightarrow> HalsteadVisitor" where
  "HalsteadVisitor_visit_FunctionDef h name visitors =
     (case fold FunctionDef_round visitors (h, HalsteadVisitor_init name) of
        (self, func_visitor) \<Rightarrow>
          HalsteadVisitor (HV_operators_seen self) (HV_operands_seen self) (HV_operators self)
            (HV_operands self) (HV_context self) (HV_function_visitors self @ [func_visitor]))"

function HalsteadVisitor_visit :: "HalsteadVisitor \<Rightarrow> val \<Rightarrow> HalsteadVisitor option" where
  "HalsteadVisitor_visit h (AST name fs) =
     (if dispatched name then
        (case results name (AST name fs) of
           None \<Rightarrow> None
         | Some r \<Rightarrow>
             (case aux h r of
                None \<Rightarrow> None
              | Some h1 \<Rightarrow> foldM HalsteadVisitor_visit h1 (iter_child_nodes fs)))
      else if name = ''FunctionDef'' \<or> name = ''AsyncFunctionDef'' then
        (case (getattr (AST name fs) ''name'', get_list (AST name fs) ''body'') of
           (Some fname, Some body) \<Rightarrow>
             (case those (map (HalsteadVisitor_visit (HalsteadVisitor_init fname)) body) of
                None \<Rightarrow> None
              | Some visitors \<Rightarrow> Some (HalsteadVisitor_visit_FunctionDef h fname visitors))
         | _ \<Rightarrow> None)
      else foldM HalsteadVisitor_visit h (iter_child_nodes fs))"
| "HalsteadVisitor_visit h VNone = None"
| "HalsteadVisitor_visit h (VBool b) = None"
| "HalsteadVisitor_visit h (VInt i) = None"
| "HalsteadVisitor_visit h (VStr s) = None"
| "HalsteadVisitor_visit h (VFloat r) = None"
| "HalsteadVisitor_visit h (VBytes s) = None"
| "HalsteadVisitor_visit h VEllipsis = None"
| "HalsteadVisitor_visit h (VList xs) = None"
  by pat_completeness auto
termination
  by (relation "measure (\<lambda>(v, n). size n)")
     (auto simp: size_child size_get_list size_get_list [OF sym])

text \<open>
  \<^verbatim>\<open>def f(a, b):\<close>
  \<^verbatim>\<open>    c = a + b\<close>
  \<^verbatim>\<open>    return c and not a\<close>
\<close>

definition halstead_example :: val where
  "halstead_example =
     mk_FunctionDef ''f'' (mk_arguments [mk_arg ''a'' VNone, mk_arg ''b'' VNone])
       [mk_Assign [mk_Name ''c'' Store] (mk_BinOp (mk_Name ''a'' Load) ''Add'' (mk_Name ''b'' Load)),
        mk_Return (mk_BoolOp ''And''
          [mk_Name ''c'' Load,
           AST ''UnaryOp'' [(''op'', AST ''Not'' []), (''operand'', mk_Name ''a'' Load)]])]"

lemmas halstead_eval = mk_defs halstead_example_def HalsteadVisitor_init_def types_def
  new_operand_def dispatched_def results_def aux_def FunctionDef_round_def
  HalsteadVisitor_visit_FunctionDef_def get_list_def

section \<open>AllClassesVisitor\<close>

function AllClassesVisitor_visit :: "string list \<Rightarrow> val \<Rightarrow> string list option" where
  "AllClassesVisitor_visit classes (AST name fs) =
     (if name = ''ClassDef'' then
        (case get_str (AST name fs) ''name'' of
           None \<Rightarrow> None
         | Some n \<Rightarrow> foldM AllClassesVisitor_visit (classes @ [n]) (iter_child_nodes fs))
      else foldM AllClassesVisitor_visit classes (iter_child_nodes fs))"
| "AllClassesVisitor_visit classes VNone = None"
| "AllClassesVisitor_visit classes (VBool b) = None"
| "AllClassesVisitor_visit classes (VInt i) = None"
| "AllClassesVisitor_visit classes (VStr s) = None"
| "AllClassesVisitor_visit classes (VFloat r) = None"
| "AllClassesVisitor_visit classes (VBytes s) = None"
| "AllClassesVisitor_visit classes VEllipsis = None"
| "AllClassesVisitor_visit classes (VList xs) = None"
  by pat_completeness auto
termination
  by (relation "measure (\<lambda>(v, n). size n)") (auto simp: size_child)

section \<open>CBOVisitor\<close>

text \<open>
  The dictionary \<^verbatim>\<open>class_couplings\<close> is kept in insertion order, as the result of
  \<^verbatim>\<open>analyze_cbo\<close> is built from it.
\<close>

record CBOVisitor =
  class_couplings :: "(string \<times> string set) list"
  current_class :: "string option"
  classes :: "string set"
  imported_names :: "string \<rightharpoonup> string"
  standard_lib_classes :: "string set"
  self_attributes :: "string \<rightharpoonup> (string \<rightharpoonup> string)"

text \<open>
  \<^verbatim>\<open>get_standard_lib_classes\<close> reads the interpreter: \<open>builtin_types\<close> stands for the names
  of \<^verbatim>\<open>dir(builtins)\<close> that are bound to types, among them \<^verbatim>\<open>super\<close>, which is removed.
\<close>

definition get_standard_lib_classes :: "string set \<Rightarrow> string set" where
  "get_standard_lib_classes builtin_types = builtin_types - {''super''}"

definition CBOVisitor_init :: "string set \<Rightarrow> string list \<Rightarrow> CBOVisitor" where
  "CBOVisitor_init builtin_types all_classes =
     \<lparr>class_couplings = [], current_class = None, classes = set all_classes,
      imported_names = Map.empty,
      standard_lib_classes = get_standard_lib_classes builtin_types,
      self_attributes = Map.empty\<rparr>"

text \<open>\<^verbatim>\<open>str.split\<close> with a separator.\<close>

fun split :: "char \<Rightarrow> string \<Rightarrow> string list" where
  "split sep [] = [[]]"
| "split sep (c # cs) =
     (if c = sep then [] # split sep cs
      else (case split sep cs of p # ps \<Rightarrow> (c # p) # ps | [] \<Rightarrow> [[c]]))"

text \<open>The test on one name in \<^verbatim>\<open>is_class_name\<close>, for a part and for the whole name.\<close>

definition is_class_part :: "CBOVisitor \<Rightarrow> string \<Rightarrow> bool" where
  "is_class_part v name_part =
     (name_part \<noteq> [] \<and> Some name_part \<noteq> current_class v
      \<and> (name_part \<in> standard_lib_classes v \<or> name_part \<in> classes v))"

definition is_class_name :: "CBOVisitor \<Rightarrow> string option \<Rightarrow> bool" where
  "is_class_name v name =
     (case name of
        None \<Rightarrow> False
      | Some n \<Rightarrow>
          let name_parts = split CHR ''.'' n in
          if length name_parts > 1 \<and> list_ex (is_class_part v) name_parts then True
          else is_class_part v n)"

definition get_class_name :: "CBOVisitor \<Rightarrow> string \<Rightarrow> string" where
  "get_class_name v coupling =
     (let parts = split CHR ''.'' coupling in
      if length parts > 1 then
        (case find (\<lambda>part. is_class_name v (Some part)) parts of
           Some part \<Rightarrow> part
         | None \<Rightarrow> coupling)
      else coupling)"

definition split_couplings_and_leave_only_class_names :: "CBOVisitor \<Rightarrow> CBOVisitor" where
  "split_couplings_and_leave_only_class_names v =
     v\<lparr>class_couplings :=
         map (\<lambda>(class_name, couplings). (class_name, get_class_name v ` couplings))
           (class_couplings v)\<rparr>"

text \<open>\<^verbatim>\<open>self.class_couplings[self.current_class].add(class_name)\<close>\<close>

definition add_coupling :: "CBOVisitor \<Rightarrow> string \<Rightarrow> CBOVisitor option" where
  "add_coupling v class_name =
     (case current_class v of
        None \<Rightarrow> None
      | Some c \<Rightarrow>
          (case map_of (class_couplings v) c of
             None \<Rightarrow> None
           | Some couplings \<Rightarrow>
               Some (v\<lparr>class_couplings :=
                          AList.update c (insert class_name couplings) (class_couplings v)\<rparr>)))"

text \<open>\<^verbatim>\<open>if self.is_class_name(x): self.add_coupling(x)\<close>\<close>

definition couple_if_class :: "CBOVisitor \<Rightarrow> string option \<Rightarrow> CBOVisitor option" where
  "couple_if_class v name =
     (case name of
        None \<Rightarrow> Some v
      | Some n \<Rightarrow> if is_class_name v (Some n) then add_coupling v n else Some v)"

definition is_self :: "val \<Rightarrow> bool option" where
  "is_self node =
     (if isinstance node ''Name'' then
        (case getattr node ''id'' of None \<Rightarrow> None | Some ident \<Rightarrow> Some (ident = VStr ''self''))
      else Some False)"

definition is_self_attribute :: "val \<Rightarrow> bool option" where
  "is_self_attribute node =
     (if isinstance node ''Attribute'' then
        (case getattr node ''value'' of None \<Rightarrow> None | Some value \<Rightarrow> is_self value)
      else Some False)"

text \<open>The string that an f-string puts for a name that may be \<^verbatim>\<open>None\<close>.\<close>

definition format :: "string option \<Rightarrow> string" where
  "format x = (case x of None \<Rightarrow> ''None'' | Some s \<Rightarrow> s)"

function get_full_name :: "CBOVisitor \<Rightarrow> val \<Rightarrow> string option option" where
  "get_full_name v (AST name fs) =
     (if name = ''Name'' then
        (case get_str (AST name fs) ''id'' of
           None \<Rightarrow> None
         | Some n \<Rightarrow> Some (Some (case imported_names v n of None \<Rightarrow> n | Some full \<Rightarrow> full)))
      else if name = ''Subscript'' then
        (case getattr (AST name fs) ''value'' of
           None \<Rightarrow> None
         | Some value \<Rightarrow> get_full_name v value)
      else if name = ''Attribute'' then
        (case getattr (AST name fs) ''value'' of
           None \<Rightarrow> None
         | Some value \<Rightarrow>
             (case get_full_name v value of
                None \<Rightarrow> None
              | Some r \<Rightarrow>
                  (case get_str (AST name fs) ''attr'' of
                     None \<Rightarrow> None
                   | Some attr \<Rightarrow> Some (Some (format r @ ''.'' @ attr)))))
      else if name = ''Call'' then
        (case getattr (AST name fs) ''func'' of
           None \<Rightarrow> None
         | Some func \<Rightarrow> get_full_name v func)
      else Some None)"
| "get_full_name v VNone = Some None"
| "get_full_name v (VBool b) = Some None"
| "get_full_name v (VInt i) = Some None"
| "get_full_name v (VStr s) = Some None"
| "get_full_name v (VFloat r) = Some None"
| "get_full_name v (VBytes s) = Some None"
| "get_full_name v VEllipsis = Some None"
| "get_full_name v (VList xs) = Some None"
  by pat_completeness auto
termination
  by (relation "measure (\<lambda>(v, n). size n)") (auto simp: size_map_of)

definition get_assigned_class :: "CBOVisitor \<Rightarrow> val \<Rightarrow> string option option" where
  "get_assigned_class v node =
     (if isinstance node ''Call'' then
        (case getattr node ''func'' of None \<Rightarrow> None | Some func \<Rightarrow> get_full_name v func)
      else if isinstance node ''Name'' then get_full_name v node
      else if isinstance node ''Attribute'' then get_full_name v node
      else Some None)"

text \<open>\<^verbatim>\<open>self.self_attributes[self.current_class][attr_name] = assigned_class\<close>\<close>

definition set_self_attribute :: "CBOVisitor \<Rightarrow> string \<Rightarrow> string \<Rightarrow> CBOVisitor option" where
  "set_self_attribute v attr_name assigned_class =
     (case current_class v of
        None \<Rightarrow> None
      | Some c \<Rightarrow>
          (case self_attributes v c of
             None \<Rightarrow> None
           | Some table \<Rightarrow>
               Some (v\<lparr>self_attributes :=
                          (self_attributes v)(c \<mapsto> table(attr_name \<mapsto> assigned_class))\<rparr>)))"

text \<open>The truth value of \<^verbatim>\<open>self.current_class\<close> and of a resolved name.\<close>

definition in_class :: "CBOVisitor \<Rightarrow> bool" where
  "in_class v = (case current_class v of None \<Rightarrow> False | Some c \<Rightarrow> c \<noteq> [])"

definition nonempty :: "string option \<Rightarrow> bool" where
  "nonempty x = (case x of None \<Rightarrow> False | Some s \<Rightarrow> s \<noteq> [])"

subsection \<open>The handlers, up to the call of \<^verbatim>\<open>generic_visit\<close>\<close>

text \<open>\<^verbatim>\<open>visit_Import\<close> and \<^verbatim>\<open>visit_ImportFrom\<close>; \<^verbatim>\<open>alias.asname or alias.name\<close> is the key.\<close>

definition import_key :: "val \<Rightarrow> string option" where
  "import_key alias =
     (case (getattr alias ''asname'', get_str alias ''name'') of
        (Some asname, Some name) \<Rightarrow> if truthy asname then as_str asname else Some name
      | _ \<Rightarrow> None)"

definition visit_Import :: "CBOVisitor \<Rightarrow> val \<Rightarrow> CBOVisitor option" where
  "visit_Import v node =
     (case get_list node ''names'' of
        None \<Rightarrow> None
      | Some names \<Rightarrow>
          foldM (\<lambda>u alias.
                   case (get_str alias ''name'', import_key alias) of
                     (Some name, Some asname) \<Rightarrow>
                        Some (u\<lparr>imported_names := (imported_names u)(asname \<mapsto> name)\<rparr>)
                   | _ \<Rightarrow> None)
            v names)"

definition visit_ImportFrom :: "CBOVisitor \<Rightarrow> val \<Rightarrow> CBOVisitor option" where
  "visit_ImportFrom v node =
     (case (getattr node ''module'', get_list node ''names'') of
        (Some modname, Some names) \<Rightarrow>
          foldM (\<lambda>u alias.
                   case (get_str alias ''name'', import_key alias) of
                     (Some name, Some asname) \<Rightarrow>
                        (if truthy modname then
                           (case as_str modname of
                              None \<Rightarrow> None
                            | Some m \<Rightarrow>
                                Some (u\<lparr>imported_names :=
                                          (imported_names u)(asname \<mapsto> m @ ''.'' @ name)\<rparr>))
                         else Some (u\<lparr>imported_names := (imported_names u)(asname \<mapsto> name)\<rparr>))
                   | _ \<Rightarrow> None)
            v names
      | _ \<Rightarrow> None)"

text \<open>The loop of \<^verbatim>\<open>visit_Module\<close> over the statements of the module.\<close>

definition visit_Module_body :: "CBOVisitor \<Rightarrow> val \<Rightarrow> CBOVisitor option" where
  "visit_Module_body v node =
     (case get_list node ''body'' of
        None \<Rightarrow> None
      | Some body \<Rightarrow>
          foldM (\<lambda>u body_item.
                   if isinstance body_item ''ClassDef'' then
                     (case get_str body_item ''name'' of
                        None \<Rightarrow> None
                      | Some n \<Rightarrow> Some (u\<lparr>classes := insert n (classes u)\<rparr>))
                   else if isinstance body_item ''Import'' then visit_Import u body_item
                   else if isinstance body_item ''ImportFrom'' then visit_ImportFrom u body_item
                   else Some u)
            v body)"

text \<open>\<^verbatim>\<open>visit_ClassDef\<close>: the cursor, the fresh entries of the class, and its bases.\<close>

definition visit_ClassDef_enter :: "CBOVisitor \<Rightarrow> val \<Rightarrow> CBOVisitor option" where
  "visit_ClassDef_enter v node =
     (case (get_str node ''name'', get_list node ''bases'') of
        (Some n, Some bases) \<Rightarrow>
          foldM (\<lambda>u base.
                   case get_full_name u base of
                     None \<Rightarrow> None
                   | Some base_name \<Rightarrow> couple_if_class u base_name)
            (v\<lparr>current_class := Some n,
               class_couplings := AList.update n {} (class_couplings v),
               self_attributes := (self_attributes v)(n \<mapsto> Map.empty)\<rparr>)
            bases
      | _ \<Rightarrow> None)"

text \<open>\<^verbatim>\<open>visit_FunctionDef\<close> inside a class: parameter and return annotations.\<close>

definition visit_FunctionDef_annotations :: "CBOVisitor \<Rightarrow> val \<Rightarrow> CBOVisitor option" where
  "visit_FunctionDef_annotations v node =
     (case getattr node ''args'' of
        None \<Rightarrow> None
      | Some arguments \<Rightarrow>
          (case get_list arguments ''args'' of
             None \<Rightarrow> None
           | Some args \<Rightarrow>
               (case foldM (\<lambda>u arg.
                              case getattr arg ''annotation'' of
                                None \<Rightarrow> None
                              | Some annotation \<Rightarrow>
                                  if truthy annotation then
                                    (case get_full_name u annotation of
                                       None \<Rightarrow> None
                                     | Some type_name \<Rightarrow> couple_if_class u type_name)
                                  else Some u)
                       v args of
                  None \<Rightarrow> None
                | Some v1 \<Rightarrow>
                    (case getattr node ''returns'' of
                       None \<Rightarrow> None
                     | Some returns \<Rightarrow>
                         if truthy returns then
                           (case get_full_name v1 returns of
                              None \<Rightarrow> None
                            | Some return_type \<Rightarrow> couple_if_class v1 return_type)
                         else Some v1))))"

text \<open>\<^verbatim>\<open>visit_Assign\<close> inside a class: the targets that are attributes of \<^verbatim>\<open>self\<close>.\<close>

definition visit_Assign_targets :: "CBOVisitor \<Rightarrow> val \<Rightarrow> CBOVisitor option" where
  "visit_Assign_targets v node =
     (case (get_list node ''targets'', getattr node ''value'') of
        (Some targets, Some value) \<Rightarrow>
          foldM (\<lambda>u target.
                   if isinstance target ''Attribute'' then
                     (case getattr target ''value'' of
                        None \<Rightarrow> None
                      | Some base \<Rightarrow>
                          (case is_self base of
                             None \<Rightarrow> None
                           | Some False \<Rightarrow> Some u
                           | Some True \<Rightarrow>
                               (case (get_str target ''attr'', get_assigned_class u value) of
                                  (Some attr_name, Some assigned_class) \<Rightarrow>
                                    (case assigned_class of
                                       None \<Rightarrow> Some u
                                     | Some cls \<Rightarrow>
                                         if is_class_name u (Some cls) then
                                           (case set_self_attribute u attr_name cls of
                                              None \<Rightarrow> None
                                            | Some u1 \<Rightarrow> add_coupling u1 cls)
                                         else Some u)
                                | _ \<Rightarrow> None)))
                   else Some u)
            v targets
      | _ \<Rightarrow> None)"

text \<open>\<^verbatim>\<open>visit_AnnAssign\<close> inside a class: an annotated attribute of \<^verbatim>\<open>self\<close> or variable.\<close>

definition visit_AnnAssign_target :: "CBOVisitor \<Rightarrow> val \<Rightarrow> CBOVisitor option" where
  "visit_AnnAssign_target v node =
     (case (getattr node ''target'', getattr node ''annotation'') of
        (Some target, Some annotation) \<Rightarrow>
          (case is_self_attribute target of
             None \<Rightarrow> None
           | Some True \<Rightarrow>
               (case (get_str target ''attr'', get_full_name v annotation) of
                  (Some attr_name, Some assigned_class) \<Rightarrow>
                    (case assigned_class of
                       None \<Rightarrow> Some v
                     | Some cls \<Rightarrow>
                         if cls \<noteq> [] then
                           (case set_self_attribute v attr_name cls of
                              None \<Rightarrow> None
                            | Some v1 \<Rightarrow> couple_if_class v1 (Some cls))
                         else Some v)
                | _ \<Rightarrow> None)
           | Some False \<Rightarrow>
               if isinstance target ''Name'' then
                 (case (getattr target ''id'', get_full_name v annotation) of
                    (Some var_name, Some assigned_class) \<Rightarrow>
                      if nonempty assigned_class then couple_if_class v assigned_class
                      else Some v
                  | _ \<Rightarrow> None)
               else Some v)
      | _ \<Rightarrow> None)"

text \<open>\<^verbatim>\<open>visit_Call\<close> inside a class: the callee.\<close>

definition visit_Call_callee :: "CBOVisitor \<Rightarrow> val \<Rightarrow> CBOVisitor option" where
  "visit_Call_callee v node =
     (case getattr node ''func'' of
        None \<Rightarrow> None
      | Some func \<Rightarrow>
          (case get_full_name v func of
             None \<Rightarrow> None
           | Some func_name \<Rightarrow> couple_if_class v func_name))"

text \<open>\<^verbatim>\<open>visit_Attribute\<close> inside a class: an access through a recorded attribute of \<^verbatim>\<open>self\<close>.\<close>

definition get_self_attribute_class :: "CBOVisitor \<Rightarrow> val \<Rightarrow> string option option" where
  "get_self_attribute_class v node =
     (case (get_str node ''attr'', current_class v) of
        (Some attr_name, Some c) \<Rightarrow>
          (case self_attributes v c of None \<Rightarrow> None | Some table \<Rightarrow> Some (table attr_name))
      | _ \<Rightarrow> None)"

definition visit_Attribute_base :: "CBOVisitor \<Rightarrow> val \<Rightarrow> CBOVisitor option" where
  "visit_Attribute_base v node =
     (case getattr node ''value'' of
        None \<Rightarrow> None
      | Some value \<Rightarrow>
          (case is_self_attribute value of
             None \<Rightarrow> None
           | Some False \<Rightarrow> Some v
           | Some True \<Rightarrow>
               (case get_self_attribute_class v value of
                  None \<Rightarrow> None
                | Some attr_class \<Rightarrow> couple_if_class v attr_class)))"

subsection \<open>The traversal\<close>

text \<open>
  \<^verbatim>\<open>visit_Import\<close> and \<^verbatim>\<open>visit_ImportFrom\<close> do not visit children. \<^verbatim>\<open>visit_AnnAssign\<close> does
  nothing at all outside a class. \<^verbatim>\<open>visit_ClassDef\<close> ends with \<^verbatim>\<open>self.current_class = None\<close>.
\<close>

function CBOVisitor_visit :: "CBOVisitor \<Rightarrow> val \<Rightarrow> CBOVisitor option" where
  "CBOVisitor_visit v (AST name fs) =
     (if name = ''Module'' then
        (case visit_Module_body v (AST name fs) of
           None \<Rightarrow> None
         | Some v1 \<Rightarrow> foldM CBOVisitor_visit v1 (iter_child_nodes fs))
      else if name = ''Import'' then visit_Import v (AST name fs)
      else if name = ''ImportFrom'' then visit_ImportFrom v (AST name fs)
      else if name = ''ClassDef'' then
        (case visit_ClassDef_enter v (AST name fs) of
           None \<Rightarrow> None
         | Some v1 \<Rightarrow>
             (case foldM CBOVisitor_visit v1 (iter_child_nodes fs) of
                None \<Rightarrow> None
              | Some v2 \<Rightarrow> Some (v2\<lparr>current_class := None\<rparr>)))
      else if name = ''FunctionDef'' then
        (if in_class v then
           (case visit_FunctionDef_annotations v (AST name fs) of
              None \<Rightarrow> None
            | Some v1 \<Rightarrow> foldM CBOVisitor_visit v1 (iter_child_nodes fs))
         else foldM CBOVisitor_visit v (iter_child_nodes fs))
      else if name = ''Assign'' then
        (if in_class v then
           (case visit_Assign_targets v (AST name fs) of
              None \<Rightarrow> None
            | Some v1 \<Rightarrow> foldM CBOVisitor_visit v1 (iter_child_nodes fs))
         else foldM CBOVisitor_visit v (iter_child_nodes fs))
      else if name = ''AnnAssign'' then
        (if in_class v then
           (case visit_AnnAssign_target v (AST name fs) of
              None \<Rightarrow> None
            | Some v1 \<Rightarrow> foldM CBOVisitor_visit v1 (iter_child_nodes fs))
         else Some v)
      else if name = ''Call'' then
        (if in_class v then
           (case visit_Call_callee v (AST name fs) of
              None \<Rightarrow> None
            | Some v1 \<Rightarrow> foldM CBOVisitor_visit v1 (iter_child_nodes fs))
         else foldM CBOVisitor_visit v (iter_child_nodes fs))
      else if name = ''Attribute'' then
        (if in_class v then
           (case visit_Attribute_base v (AST name fs) of
              None \<Rightarrow> None
            | Some v1 \<Rightarrow> foldM CBOVisitor_visit v1 (iter_child_nodes fs))
         else foldM CBOVisitor_visit v (iter_child_nodes fs))
      else foldM CBOVisitor_visit v (iter_child_nodes fs))"
| "CBOVisitor_visit v VNone = None"
| "CBOVisitor_visit v (VBool b) = None"
| "CBOVisitor_visit v (VInt i) = None"
| "CBOVisitor_visit v (VStr s) = None"
| "CBOVisitor_visit v (VFloat r) = None"
| "CBOVisitor_visit v (VBytes s) = None"
| "CBOVisitor_visit v VEllipsis = None"
| "CBOVisitor_visit v (VList xs) = None"
  by pat_completeness auto
termination
  by (relation "measure (\<lambda>(v, n). size n)") (auto simp: size_child)

text \<open>
  \<^verbatim>\<open>analyze_cbo\<close>, from the tree that \<^verbatim>\<open>ast.parse\<close> returns and the list \<^verbatim>\<open>all_classes.classes\<close>:
  for every class, in order, the CBO value and the set of coupled classes.
\<close>

definition analyze_cbo ::
  "string set \<Rightarrow> val \<Rightarrow> string list \<Rightarrow> (string \<times> nat \<times> string set) list option" where
  "analyze_cbo builtin_types tree all_classes =
     (case CBOVisitor_visit (CBOVisitor_init builtin_types all_classes) tree of
        None \<Rightarrow> None
      | Some visitor \<Rightarrow>
          Some (map (\<lambda>(class_name, couplings). (class_name, card couplings, couplings))
                  (class_couplings (split_couplings_and_leave_only_class_names visitor))))"

text \<open>The names of the class definitions in a tree.\<close>

function declared_classes :: "val \<Rightarrow> string list" where
  "declared_classes (AST name fs) =
     (if name = ''ClassDef'' then
        (case get_str (AST name fs) ''name'' of None \<Rightarrow> [] | Some n \<Rightarrow> [n])
      else [])
     @ concat (map declared_classes (iter_child_nodes fs))"
| "declared_classes VNone = []"
| "declared_classes (VBool b) = []"
| "declared_classes (VInt i) = []"
| "declared_classes (VStr s) = []"
| "declared_classes (VFloat r) = []"
| "declared_classes (VBytes s) = []"
| "declared_classes VEllipsis = []"
| "declared_classes (VList xs) = []"
  by pat_completeness auto
termination
  by (relation "measure size") (auto simp: size_child)

section \<open>Example programs for CBOVisitor\<close>

text \<open>
  The program of \<^verbatim>\<open>test_is_defined_in_terms_of2\<close> in \<^verbatim>\<open>tests/test_cbo.py\<close>:
  \<^verbatim>\<open>class ClassA:\<close>
  \<^verbatim>\<open>    pass\<close>
  \<^verbatim>\<open>class ClassB:\<close>
  \<^verbatim>\<open>    a = ClassA()\<close>
  \<^verbatim>\<open>class ClassC:\<close>
  \<^verbatim>\<open>    def __init__(self):\<close>
  \<^verbatim>\<open>        self.b = ClassB()\<close>
\<close>

definition classes_A_B_C :: val where
  "classes_A_B_C =
     mk_Module
       [mk_ClassDef ''ClassA'' [] [mk_Pass],
        mk_ClassDef ''ClassB'' []
          [mk_Assign [mk_Name ''a'' Store] (mk_Call (mk_Name ''ClassA'' Load) [])],
        mk_ClassDef ''ClassC'' []
          [mk_FunctionDef ''__init__'' (mk_arguments [mk_arg ''self'' VNone])
             [mk_Assign [mk_Attribute (mk_Name ''self'' Load) ''b'' Store]
                (mk_Call (mk_Name ''ClassB'' Load) [])]]]"

text \<open>
  \<^verbatim>\<open>class Tree:\<close>
  \<^verbatim>\<open>    def make(self):\<close>
  \<^verbatim>\<open>        return Tree.Leaf()\<close>
  \<^verbatim>\<open>    class Leaf:\<close>
  \<^verbatim>\<open>        pass\<close>
\<close>

definition tree_and_leaf :: val where
  "tree_and_leaf =
     mk_Module
       [mk_ClassDef ''Tree'' []
          [mk_FunctionDef ''make'' (mk_arguments [mk_arg ''self'' VNone])
             [mk_Return (mk_Call (mk_Attribute (mk_Name ''Tree'' Load) ''Leaf'' Load) [])],
           mk_ClassDef ''Leaf'' [] [mk_Pass]]]"

text \<open>
  \<^verbatim>\<open>class Other:\<close>
  \<^verbatim>\<open>    pass\<close>
  \<^verbatim>\<open>class Outer:\<close>
  \<^verbatim>\<open>    class Inner:\<close>
  \<^verbatim>\<open>        pass\<close>
  \<^verbatim>\<open>    helper = Other()\<close>
\<close>

definition class_Inner :: val where
  "class_Inner = mk_ClassDef ''Inner'' [] [mk_Pass]"

definition helper_is_Other :: val where
  "helper_is_Other = mk_Assign [mk_Name ''helper'' Store] (mk_Call (mk_Name ''Other'' Load) [])"

definition outer_and_inner :: val where
  "outer_and_inner =
     mk_Module
       [mk_ClassDef ''Other'' [] [mk_Pass],
        mk_ClassDef ''Outer'' [] [class_Inner, helper_is_Other]]"

lemmas cbo_eval = mk_defs analyze_cbo_def CBOVisitor_init_def
  get_standard_lib_classes_def split_couplings_and_leave_only_class_names_def
  get_class_name_def is_class_name_def is_class_part_def add_coupling_def couple_if_class_def
  is_self_def is_self_attribute_def format_def get_assigned_class_def set_self_attribute_def
  in_class_def nonempty_def import_key_def visit_Import_def visit_ImportFrom_def
  visit_Module_body_def visit_ClassDef_enter_def visit_FunctionDef_annotations_def
  visit_Assign_targets_def visit_AnnAssign_target_def visit_Call_callee_def
  get_self_attribute_class_def visit_Attribute_base_def isinstance_def get_str_def
  get_list_def

text \<open>Some of the names that \<^verbatim>\<open>dir(builtins)\<close> binds to types.\<close>

definition some_builtin_types :: "string set" where
  "some_builtin_types =
     {''bool'', ''bytes'', ''dict'', ''float'', ''int'', ''list'', ''object'', ''set'',
      ''str'', ''super'', ''tuple'', ''type'', ''Exception'', ''ValueError''}"

text \<open>The visitor inside the body of \<^verbatim>\<open>Outer\<close>, before its first statement.\<close>

definition inside_Outer :: CBOVisitor where
  "inside_Outer =
     \<lparr>class_couplings = [(''Other'', {}), (''Outer'', {})], current_class = Some ''Outer'',
      classes = {''Other'', ''Outer'', ''Inner''}, imported_names = Map.empty,
      standard_lib_classes = get_standard_lib_classes some_builtin_types,
      self_attributes = [''Other'' \<mapsto> Map.empty, ''Outer'' \<mapsto> Map.empty]\<rparr>"

definition after_Inner :: CBOVisitor where
  "after_Inner =
     inside_Outer\<lparr>class_couplings := [(''Other'', {}), (''Outer'', {}), (''Inner'', {})],
                   current_class := None,
                   self_attributes := [''Other'' \<mapsto> Map.empty, ''Outer'' \<mapsto> Map.empty,
                                       ''Inner'' \<mapsto> Map.empty]\<rparr>"

text \<open>The same classes with the assignment before the nested class.\<close>

definition outer_helper_first :: val where
  "outer_helper_first =
     mk_Module
       [mk_ClassDef ''Other'' [] [mk_Pass],
        mk_ClassDef ''Outer'' [] [helper_is_Other, class_Inner]]"

section \<open>What a visit of CBOVisitor may change\<close>

text \<open>
  \<open>quiet\<close>: the cursor stays, and only the couplings of the current class may change.
  \<open>calm D\<close>: the cursor stays or is lost, and the couplings of a class that is neither
  the current one nor in \<open>D\<close> stay.
\<close>

definition quiet :: "CBOVisitor \<Rightarrow> CBOVisitor \<Rightarrow> bool" where
  "quiet v v' =
     (current_class v' = current_class v
      \<and> (\<forall>E. Some E \<noteq> current_class v
             \<longrightarrow> map_of (class_couplings v') E = map_of (class_couplings v) E))"

definition calm :: "string set \<Rightarrow> CBOVisitor \<Rightarrow> CBOVisitor \<Rightarrow> bool" where
  "calm D v v' =
     ((current_class v' = current_class v \<or> current_class v' = None)
      \<and> (\<forall>E. Some E \<noteq> current_class v \<and> E \<notin> D
             \<longrightarrow> map_of (class_couplings v') E = map_of (class_couplings v) E))"

section \<open>Trees whose boolean combinations have operands\<close>

text \<open>All the nodes of a tree, and the trees in which every \<^verbatim>\<open>BoolOp\<close> has an operand (the
  parser gives every \<^verbatim>\<open>BoolOp\<close> at least two).\<close>

function nodes :: "val \<Rightarrow> val list" where
  "nodes (AST name fs) = AST name fs # concat (map nodes (iter_child_nodes fs))"
| "nodes VNone = []"
| "nodes (VBool b) = []"
| "nodes (VInt i) = []"
| "nodes (VStr s) = []"
| "nodes (VFloat r) = []"
| "nodes (VBytes s) = []"
| "nodes VEllipsis = []"
| "nodes (VList xs) = []"
  by pat_completeness auto
termination
  by (relation "measure size") (auto simp: size_child)

definition BoolOps_have_operands :: "val \<Rightarrow> bool" where
  "BoolOps_have_operands t =
     list_all (\<lambda>n. get_name n \<noteq> ''BoolOp'' \<or> operands n \<noteq> []) (nodes t)"

text \<open>
  \<open>grows v v'\<close>: the counter has not decreased, and every function and class record that
  is new in \<open>v'\<close> has a complexity of at least 1.
\<close>

definition grows :: "ComplexityVisitor \<Rightarrow> ComplexityVisitor \<Rightarrow> bool" where
  "grows v v' =
     (CV_complexity v \<le> CV_complexity v'
      \<and> (\<forall>f \<in> set (CV_functions v').
             f \<in> set (CV_functions v) \<or> 1 \<le> Function_complexity f)
      \<and> (\<forall>c \<in> set (CV_classes v').
             c \<in> set (CV_classes v) \<or> 1 \<le> Class_real_complexity c))"

section \<open>Class complexity\<close>






section \<open>The counter of ComplexityVisitor\<close>

lemma visit_FunctionDef_record_complexity:
  "visit_FunctionDef_record v node vs = Some v' \<Longrightarrow>
     CV_complexity v' = CV_complexity v \<and> CV_no_assert v' = CV_no_assert v"
  by (auto simp: visit_FunctionDef_record_def Let_def split: option.splits if_splits prod.splits)

lemma visit_ClassDef_record_complexity:
  "visit_ClassDef_record v node vs = Some v' \<Longrightarrow>
     CV_complexity v' = CV_complexity v \<and> CV_no_assert v' = CV_no_assert v"
  by (auto simp: visit_ClassDef_record_def Let_def split: option.splits if_splits prod.splits)

lemma note_lineno_complexity:
  "note_lineno v node = Some v' \<Longrightarrow>
     CV_complexity v' = CV_complexity v \<and> CV_no_assert v' = CV_no_assert v"
  by (auto simp: note_lineno_def set_max_line_def split: option.splits if_splits)

lemma foldM_visit_complexity:
  assumes "\<And>x u u'. x \<in> set xs \<Longrightarrow> ComplexityVisitor_visit u x = Some u' \<Longrightarrow>
             CV_complexity u' = CV_complexity u + sum_list (map (own_points (CV_no_assert u)) (reached x))
             \<and> CV_no_assert u' = CV_no_assert u"
    and "foldM ComplexityVisitor_visit u xs = Some u'"
  shows "CV_complexity u' = CV_complexity u
           + sum_list (map (own_points (CV_no_assert u)) (concat (map reached xs)))
         \<and> CV_no_assert u' = CV_no_assert u"
  using assms
proof (induction xs arbitrary: u)
  case Nil
  then show ?case by simp
next
  case (Cons x xs)
  from Cons.prems(2) obtain w where w: "ComplexityVisitor_visit u x = Some w"
    and rest: "foldM ComplexityVisitor_visit w xs = Some u'"
    by (auto split: option.splits)
  from Cons.prems(1)[OF _ w] have 1: "CV_complexity w = CV_complexity u + sum_list (map (own_points (CV_no_assert u)) (reached x))"
    and 2: "CV_no_assert w = CV_no_assert u" by auto
  have 3: "CV_complexity u' = CV_complexity w
           + sum_list (map (own_points (CV_no_assert w)) (concat (map reached xs)))
         \<and> CV_no_assert u' = CV_no_assert w"
    by (rule Cons.IH[OF _ rest]) (use Cons.prems(1) in auto)
  show ?case using 1 2 3 by simp
qed

lemma visit_complexity:
  "ComplexityVisitor_visit v t = Some v' \<Longrightarrow>
     CV_complexity v' = CV_complexity v + sum_list (map (own_points (CV_no_assert v)) (reached t))
     \<and> CV_no_assert v' = CV_no_assert v"
proof (induction v t arbitrary: v' rule: ComplexityVisitor_visit.induct)
  case (1 v name fs)
  show ?case
  proof (cases "handled_by_method name")
    case True
    then show ?thesis using "1.prems"
      by (auto simp: handled_by_method_def own_points_def
          dest: visit_FunctionDef_record_complexity visit_ClassDef_record_complexity
          split: option.splits if_splits)
  next
    case False
    then have nm: "name \<noteq> ''Assert''" "\<not> (name = ''FunctionDef'' \<or> name = ''AsyncFunctionDef'')" "name \<noteq> ''ClassDef''"
      by (auto simp: handled_by_method_def)
    from "1.prems" nm obtain v1 d where v1: "note_lineno v (AST name fs) = Some v1"
      and d: "decision_points name (AST name fs) = Some d"
      and f: "foldM ComplexityVisitor_visit (v1\<lparr>CV_complexity := CV_complexity v1 + d\<rparr>) (iter_child_nodes fs) = Some v'"
      by (auto split: option.splits)
    have "CV_complexity v' = CV_complexity (v1\<lparr>CV_complexity := CV_complexity v1 + d\<rparr>)
           + sum_list (map (own_points (CV_no_assert (v1\<lparr>CV_complexity := CV_complexity v1 + d\<rparr>))) (concat (map reached (iter_child_nodes fs))))
         \<and> CV_no_assert v' = CV_no_assert (v1\<lparr>CV_complexity := CV_complexity v1 + d\<rparr>)"
      by (rule foldM_visit_complexity[OF _ f]) (rule "1.IH"(3)[OF nm v1 d], auto)
    moreover have "own_points (CV_no_assert v) (AST name fs) = d"
      using d False by (auto simp: own_points_def handled_by_method_def)
    ultimately show ?thesis using note_lineno_complexity[OF v1] False
      by simp
  qed
qed simp_all


lemma sum_list_split:
  "sum_list (map f xs) =
     sum_list (map f (filter P xs)) + sum_list (map f (filter (\<lambda>x. \<not> P x) xs))"
  for f :: "'a \<Rightarrow> int"
  by (induction xs) auto

lemma foldM_Some_member:
  "foldM f s xs = Some s' \<Longrightarrow> x \<in> set xs \<Longrightarrow> \<exists>u u'. f u x = Some u'"
  by (induction xs arbitrary: s) (auto split: option.splits)

lemma visit_reached_decision_points:
  "ComplexityVisitor_visit v t = Some v' \<Longrightarrow> n \<in> set (reached t)
     \<Longrightarrow> \<not> handled_by_method (get_name n)
     \<Longrightarrow> \<exists>d. decision_points (get_name n) n = Some d"
proof (induction v t arbitrary: v' rule: ComplexityVisitor_visit.induct)
  case (1 v name fs)
  show ?case
  proof (cases "handled_by_method name")
    case True
    then show ?thesis using "1.prems" by auto
  next
    case False
    then have nm: "name \<noteq> ''Assert''" "\<not> (name = ''FunctionDef'' \<or> name = ''AsyncFunctionDef'')" "name \<noteq> ''ClassDef''"
      by (auto simp: handled_by_method_def)
    from "1.prems"(1) nm obtain v1 d where v1: "note_lineno v (AST name fs) = Some v1"
      and d: "decision_points name (AST name fs) = Some d"
      and f: "foldM ComplexityVisitor_visit (v1\<lparr>CV_complexity := CV_complexity v1 + d\<rparr>) (iter_child_nodes fs) = Some v'"
      by (auto split: option.splits)
    from "1.prems"(2) False consider "n = AST name fs"
      | c where "c \<in> set (iter_child_nodes fs)" "n \<in> set (reached c)"
      by auto
    then show ?thesis
    proof cases
      case 1
      then show ?thesis using d by simp
    next
      case 2
      from foldM_Some_member[OF f 2(1)] obtain u u' where "ComplexityVisitor_visit u c = Some u'"
        by blast
      from "1.IH"(3)[OF nm v1 d 2(1) this 2(2) "1.prems"(3)] show ?thesis .
    qed
  qed
qed simp_all

lemma own_points_BoolOp:
  "get_name n = ''BoolOp'' \<Longrightarrow> decision_points (get_name n) n = Some d
    \<Longrightarrow> own_points na n = int (length (operands n)) - 1"
  by (auto simp: own_points_def handled_by_method_def decision_points_def operands_def
      split: option.splits)

lemma contain_underscore_list_ex:
  "contain_underscore cs = Some u \<Longrightarrow> u = list_ex is_wildcard_case cs"
  by (induction cs) (auto simp: is_wildcard_case_def split: option.splits if_splits)

lemma own_points_Match:
  "get_name n = ''Match'' \<Longrightarrow> decision_points (get_name n) n = Some d
    \<Longrightarrow> own_points na n = max 0 (int (length (cases_of n)) - has_wildcard_case n)"
  by (auto simp: own_points_def handled_by_method_def decision_points_def cases_of_def
      has_wildcard_case_def dest!: contain_underscore_list_ex
      split: option.splits)

text \<open>
  C3, as the code has it. Every \<^verbatim>\<open>BoolOp\<close> node that the visitor reaches adds the number
  of its operands minus one to the counter, at any depth below nodes visited generically.
  The visitor does not descend below an \<^verbatim>\<open>Assert\<close> node (which adds one, or nothing under
  \<^verbatim>\<open>no_assert\<close>), nor below a function or class definition, whose bodies are counted by
  sub-visitors of their own: \<open>reached\<close> stops there.
\<close>

theorem BoolOp_contributes_operands_minus_one:
  assumes "ComplexityVisitor_visit v t = Some v'"
  shows "CV_complexity v' = CV_complexity v
           + sum_list (map (\<lambda>b. int (length (operands b)) - 1)
                 (filter (\<lambda>n. get_name n = ''BoolOp'') (reached t)))
           + sum_list (map (own_points (CV_no_assert v))
                 (filter (\<lambda>n. get_name n \<noteq> ''BoolOp'') (reached t)))"
proof -
  have "sum_list (map (own_points (CV_no_assert v))
            (filter (\<lambda>n. get_name n = ''BoolOp'') (reached t)))
        = sum_list (map (\<lambda>b. int (length (operands b)) - 1)
            (filter (\<lambda>n. get_name n = ''BoolOp'') (reached t)))"
  proof (rule arg_cong[where f=sum_list], rule map_cong[OF refl])
    fix b assume "b \<in> set (filter (\<lambda>n. get_name n = ''BoolOp'') (reached t))"
    then have b: "b \<in> set (reached t)" "get_name b = ''BoolOp''" by auto
    then have "\<not> handled_by_method (get_name b)" by (simp add: handled_by_method_def)
    from visit_reached_decision_points[OF assms b(1) this] obtain d
      where "decision_points (get_name b) b = Some d" by blast
    from own_points_BoolOp[OF b(2) this]
    show "own_points (CV_no_assert v) b = int (length (operands b)) - 1" .
  qed
  then show ?thesis
    using visit_complexity[OF assms]
      sum_list_split[where f="own_points (CV_no_assert v)" and P="\<lambda>n. get_name n = ''BoolOp''"
        and xs="reached t"]
    by simp
qed

text \<open>
  C6. Every \<^verbatim>\<open>Match\<close> node the visitor reaches adds
  \<open>max 0 (number of cases - has_wildcard_case)\<close> to the counter.
\<close>

theorem Match_contributes_cases_minus_wildcard:
  assumes "ComplexityVisitor_visit v t = Some v'"
  shows "CV_complexity v' = CV_complexity v
           + sum_list (map (\<lambda>m. max 0 (int (length (cases_of m)) - has_wildcard_case m))
                 (filter (\<lambda>n. get_name n = ''Match'') (reached t)))
           + sum_list (map (own_points (CV_no_assert v))
                 (filter (\<lambda>n. get_name n \<noteq> ''Match'') (reached t)))"
proof -
  have "sum_list (map (own_points (CV_no_assert v))
            (filter (\<lambda>n. get_name n = ''Match'') (reached t)))
        = sum_list (map (\<lambda>m. max 0 (int (length (cases_of m)) - has_wildcard_case m))
                 (filter (\<lambda>n. get_name n = ''Match'') (reached t)))"
  proof (rule arg_cong[where f=sum_list], rule map_cong[OF refl])
    fix b assume "b \<in> set (filter (\<lambda>n. get_name n = ''Match'') (reached t))"
    then have b: "b \<in> set (reached t)" "get_name b = ''Match''" by auto
    then have "\<not> handled_by_method (get_name b)" by (simp add: handled_by_method_def)
    from visit_reached_decision_points[OF assms b(1) this] obtain d
      where "decision_points (get_name b) b = Some d" by blast
    from own_points_Match[OF b(2) this]
    show "own_points (CV_no_assert v) b = max 0 (int (length (cases_of b)) - has_wildcard_case b)" .
  qed
  then show ?thesis
    using visit_complexity[OF assms]
      sum_list_split[where f="own_points (CV_no_assert v)" and P="\<lambda>n. get_name n = ''Match''"
        and xs="reached t"]
    by simp
qed

text \<open>
  C3, as stated, fails below an assertion. Visiting \<^verbatim>\<open>assert a and b and c\<close> with a
  counter starting at 1 ends with the counter at 2: the assertion adds its one point, and
  the three-operand \<^verbatim>\<open>BoolOp\<close> below it, which should add 2, adds nothing.
\<close>

theorem BoolOp_inside_Assert_counterexample:
  "map_option CV_complexity
     (ComplexityVisitor_visit (ComplexityVisitor_init False None True False)
        assert_a_and_b_and_c) = Some 2
   \<and> CV_complexity (ComplexityVisitor_init False None True False) = 1
   \<and> own_points False assert_a_and_b_and_c = 1
   \<and> int (length (operands a_and_b_and_c)) - 1 = 2"
  by (simp add: a_and_b_and_c_def assert_a_and_b_and_c_def operands_def cv_eval)

theorem BoolOp_contributes_witness:
  "ComplexityVisitor_visit (ComplexityVisitor_init False None True False) if_and_or
     = Some \<lparr>CV_off = True, CV_complexity = 5, CV_functions = [], CV_classes = [],
         CV_to_method = False, CV_classname = None, CV_no_assert = False,
         CV_max_line = Some 2\<rparr>
   \<and> sum_list (map (\<lambda>b. int (length (operands b)) - 1)
         (filter (\<lambda>n. get_name n = ''BoolOp'') (reached if_and_or))) = 3"
proof -
  have h: "ComplexityVisitor_visit (ComplexityVisitor_init False None True False) if_and_or
     = Some \<lparr>CV_off = True, CV_complexity = 5, CV_functions = [], CV_classes = [],
         CV_to_method = False, CV_classname = None, CV_no_assert = False,
         CV_max_line = Some 2\<rparr>"
    by (simp add: if_and_or_def cv_eval)
  have o: "sum_list (map (own_points False)
                 (filter (\<lambda>n. get_name n \<noteq> ''BoolOp'') (reached if_and_or))) = 1"
    by (simp add: if_and_or_def operands_def cv_eval)
  from BoolOp_contributes_operands_minus_one [OF h] o show ?thesis
    using h by (simp add: ComplexityVisitor_init_def)
qed

theorem Match_contributes_witness:
  "map_option CV_complexity
     (ComplexityVisitor_visit (ComplexityVisitor_init False None False False) match_two_cases)
     = Some 1
   \<and> sum_list (map (\<lambda>m. max 0 (int (length (cases_of m)) - has_wildcard_case m))
         (filter (\<lambda>n. get_name n = ''Match'') (reached match_two_cases))) = 1"
proof -
  have h: "ComplexityVisitor_visit (ComplexityVisitor_init False None False False) match_two_cases
     = Some \<lparr>CV_off = False, CV_complexity = 1, CV_functions = [], CV_classes = [],
         CV_to_method = False, CV_classname = None, CV_no_assert = False,
         CV_max_line = Some 5\<rparr>"
    by (simp add: match_two_cases_def cv_eval)
  have o: "sum_list (map (own_points False)
                 (filter (\<lambda>n. get_name n \<noteq> ''Match'') (reached match_two_cases))) = 0"
    by (simp add: match_two_cases_def cv_eval)
  from Match_contributes_cases_minus_wildcard [OF h] o show ?thesis
    using h by (simp add: ComplexityVisitor_init_def)
qed




section \<open>Cohesion of methods\<close>

lemma upt3: "[0..<3] = [0, 1, 2]" "[1..<3] = [1, 2]" "[2..<3] = [2]" "[3..<3] = []"
  by (simp_all add: upt_rec)

lemma upt4: "[0..<4] = [0, 1, 2, 3]" "[1..<4] = [1, 2, 3]" "[2..<4] = [2, 3]"
  "[3..<4] = [3]" "[4..<4] = []"
  by (simp_all add: upt_rec)


text \<open>
  The value 2 is the LCOM of the program in \<^verbatim>\<open>tests/test_lcom.py\<close>, whose class has a fourth
  method: \<^verbatim>\<open>__init__\<close> shares a field with two of the others, so \<open>P = 4\<close> and \<open>Q = 2\<close>.
\<close>

lemma test_lcom_program_lcom: "analyze_lcom test_lcom_program = Some [(''MyClass'', 2)]"
  by (simp add: test_lcom_program_def lcom_eval upt4)


lemma collect_methods_append:
  "collect_methods (xs @ ys) acc =
     (case collect_methods xs acc of None \<Rightarrow> None | Some acc' \<Rightarrow> collect_methods ys acc')"
  by (induction xs acc rule: collect_methods.induct) (auto split: option.splits)

lemma collect_methods_filter:
  "collect_methods body acc
     = collect_methods (filter (\<lambda>b. isinstance b ''FunctionDef'') body) acc"
  by (induction body acc rule: collect_methods.induct) (auto split: option.splits)


lemma filter_eq_ConsD: "filter P xs = y # ys \<Longrightarrow> P y"
  by (metis filter_eq_Cons_iff)



lemma filter_FunctionDef_not_async:
  "filter (\<lambda>b. isinstance b ''FunctionDef'') (filter (\<lambda>b. \<not> isinstance b ''AsyncFunctionDef'') body)
     = filter (\<lambda>b. isinstance b ''FunctionDef'') body"
  by (induction body) (auto simp: isinstance_def)

text \<open>
  C10. Only the items of a class body that are instances of \<^verbatim>\<open>FunctionDef\<close> enter the
  list of methods and the table of field sets: two class definitions of the same name
  whose bodies differ only in asynchronous method definitions yield the same methods, the
  same field sets and the same LCOM.
\<close>

theorem async_methods_ignored:
  assumes "get_str n1 ''name'' = get_str n2 ''name''"
    and "get_list n1 ''body'' = Some b1" and "get_list n2 ''body'' = Some b2"
    and "filter (\<lambda>b. \<not> isinstance b ''AsyncFunctionDef'') b1
           = filter (\<lambda>b. \<not> isinstance b ''AsyncFunctionDef'') b2"
  shows "collect_methods b1 (Map.empty, []) = collect_methods b2 (Map.empty, [])
         \<and> LCOMVisitor_visit_ClassDef class_lcoms n1 = LCOMVisitor_visit_ClassDef class_lcoms n2"
proof -
  have "filter (\<lambda>b. isinstance b ''FunctionDef'') b1 = filter (\<lambda>b. isinstance b ''FunctionDef'') b2"
    using filter_FunctionDef_not_async[of b1] filter_FunctionDef_not_async[of b2] assms(4)
    by simp
  then have "collect_methods b1 (Map.empty, []) = collect_methods b2 (Map.empty, [])"
    using collect_methods_filter[of b1] collect_methods_filter[of b2] by simp
  then show ?thesis using assms(1-3)
    by (simp add: LCOMVisitor_visit_ClassDef_def split: option.splits)
qed

theorem async_methods_ignored_witness:
  "LCOMVisitor_visit_ClassDef [] three_methods_and_async = Some [(''MyClass'', 3)]
   \<and> LCOMVisitor_visit_ClassDef [] three_methods_class = Some [(''MyClass'', 3)]"
  using async_methods_ignored [of three_methods_and_async three_methods_class
      "[method_reading ''method_one'' ''a'' 1,
        mk_AsyncFunctionDef ''fetch'' (mk_arguments [mk_arg ''self'' VNone])
          [mk_Return (mk_Attribute (mk_Name ''self'' Load) ''a'' Load)],
        method_reading ''method_two'' ''b'' 2,
        method_plain ''method_three'' 3]"
      "[method_reading ''method_one'' ''a'' 1, method_reading ''method_two'' ''b'' 2,
        method_plain ''method_three'' 3]" "[]"]
  by (simp add: three_methods_class_def three_methods_and_async_def lcom_eval upt3)

section \<open>Function scopes of HalsteadVisitor\<close>

lemma fold_FunctionDef_round:
  "fold FunctionDef_round visitors (self, fv) = (self', fv') \<Longrightarrow>
     HV_operators self' = HV_operators self + sum_list (map HV_operators visitors)
   \<and> HV_operands self' = HV_operands self + sum_list (map HV_operands visitors)
   \<and> HV_operators_seen self' = HV_operators_seen self \<union> \<Union> (set (map HV_operators_seen visitors))
   \<and> HV_operands_seen self' = HV_operands_seen self \<union> \<Union> (set (map HV_operands_seen visitors))
   \<and> HV_context self' = HV_context self
   \<and> HV_function_visitors self' = HV_function_visitors self
   \<and> HV_operators fv' = HV_operators fv + sum_list (map HV_operators visitors)
   \<and> HV_operands fv' = HV_operands fv + sum_list (map HV_operands visitors)
   \<and> HV_operators_seen fv' = HV_operators_seen fv \<union> \<Union> (set (map HV_operators_seen visitors))
   \<and> HV_operands_seen fv' = HV_operands_seen fv \<union> \<Union> (set (map HV_operands_seen visitors))
   \<and> HV_context fv' = HV_context fv
   \<and> HV_function_visitors fv' = HV_function_visitors fv"
proof (induction visitors arbitrary: self fv)
  case Nil
  then show ?case by simp
next
  case (Cons x xs)
  obtain s1 f1 where r: "FunctionDef_round x (self, fv) = (s1, f1)" by fastforce
  with Cons.prems have "fold FunctionDef_round xs (s1, f1) = (self', fv')" by simp
  from Cons.IH[OF this] r show ?case
    by (auto simp: FunctionDef_round_def)
qed

text \<open>
  C8. Visiting a function definition runs a fresh sub-visitor on every body statement.
  The totals and the sets of these sub-visitors make up a visitor of the function, which
  is appended to \<open>function_visitors\<close>, and the same totals and sets are added to the
  visiting visitor: both receive equal contributions.
\<close>

theorem function_totals_added_twice:
  assumes "name = ''FunctionDef'' \<or> name = ''AsyncFunctionDef''"
    and "getattr (AST name fs) ''name'' = Some fname"
    and "get_list (AST name fs) ''body'' = Some body"
    and "those (map (HalsteadVisitor_visit (HalsteadVisitor_init fname)) body) = Some visitors"
  shows "\<exists>h' func_visitor.
           HalsteadVisitor_visit h (AST name fs) = Some h'
         \<and> HV_function_visitors h' = HV_function_visitors h @ [func_visitor]
         \<and> HV_context func_visitor = fname
         \<and> HV_operators func_visitor = sum_list (map HV_operators visitors)
         \<and> HV_operands func_visitor = sum_list (map HV_operands visitors)
         \<and> HV_operators_seen func_visitor = \<Union> (set (map HV_operators_seen visitors))
         \<and> HV_operands_seen func_visitor = \<Union> (set (map HV_operands_seen visitors))
         \<and> HV_operators h' = HV_operators h + HV_operators func_visitor
         \<and> HV_operands h' = HV_operands h + HV_operands func_visitor
         \<and> HV_operators_seen h' = HV_operators_seen h \<union> HV_operators_seen func_visitor
         \<and> HV_operands_seen h' = HV_operands_seen h \<union> HV_operands_seen func_visitor"
proof -
  obtain self' fv' where f: "fold FunctionDef_round visitors (h, HalsteadVisitor_init fname) = (self', fv')"
    by fastforce
  have v: "HalsteadVisitor_visit h (AST name fs)
        = Some (HalsteadVisitor_visit_FunctionDef h fname visitors)"
    using assms by (auto simp: dispatched_def)
  have m: "HalsteadVisitor_visit_FunctionDef h fname visitors
        = HalsteadVisitor (HV_operators_seen self') (HV_operands_seen self') (HV_operators self')
            (HV_operands self') (HV_context self') (HV_function_visitors self' @ [fv'])"
    by (simp add: HalsteadVisitor_visit_FunctionDef_def f)
  from fold_FunctionDef_round[OF f] show ?thesis
    unfolding v m by (simp add: HalsteadVisitor_init_def)
qed

theorem function_totals_added_twice_witness:
  "HalsteadVisitor_visit (HalsteadVisitor {''Sub''} {(VNone, VStr ''z'')} 1 2 VNone [])
      halstead_example
     = Some (HalsteadVisitor {''Sub'', ''Add'', ''And'', ''Not''}
         {(VNone, VStr ''z''), (VStr ''f'', VStr ''a''), (VStr ''f'', VStr ''b''),
          (VStr ''f'', VStr ''c''),
          (VStr ''f'', AST ''UnaryOp'' [(''op'', AST ''Not'' []),
                                        (''operand'', mk_Name ''a'' Load)])}
         4 7 VNone
         [HalsteadVisitor {''Add'', ''And'', ''Not''}
            {(VStr ''f'', VStr ''a''), (VStr ''f'', VStr ''b''), (VStr ''f'', VStr ''c''),
             (VStr ''f'', AST ''UnaryOp'' [(''op'', AST ''Not'' []),
                                           (''operand'', mk_Name ''a'' Load)])}
            3 5 (VStr ''f'') []])"
proof -
  have b: "those (map (HalsteadVisitor_visit (HalsteadVisitor_init (VStr ''f'')))
      [mk_Assign [mk_Name ''c'' Store] (mk_BinOp (mk_Name ''a'' Load) ''Add'' (mk_Name ''b'' Load)),
        mk_Return (mk_BoolOp ''And''
          [mk_Name ''c'' Load,
           AST ''UnaryOp'' [(''op'', AST ''Not'' []), (''operand'', mk_Name ''a'' Load)]])])
     = Some [HalsteadVisitor {''Add''} {(VStr ''f'', VStr ''a''), (VStr ''f'', VStr ''b'')} 1 2
               (VStr ''f'') [],
             HalsteadVisitor {''And'', ''Not''}
               {(VStr ''f'', VStr ''c''), (VStr ''f'', VStr ''a''),
                (VStr ''f'', AST ''UnaryOp'' [(''op'', AST ''Not'' []),
                                              (''operand'', mk_Name ''a'' Load)])}
               2 3 (VStr ''f'') []]"
    by (simp add: halstead_eval) blast
  show ?thesis
    using function_totals_added_twice [of "''FunctionDef''"
        "[(''name'', VStr ''f''), (''args'', mk_arguments [mk_arg ''a'' VNone, mk_arg ''b'' VNone]),
          (''body'', VList
            [mk_Assign [mk_Name ''c'' Store] (mk_BinOp (mk_Name ''a'' Load) ''Add'' (mk_Name ''b'' Load)),
             mk_Return (mk_BoolOp ''And''
               [mk_Name ''c'' Load,
                AST ''UnaryOp'' [(''op'', AST ''Not'' []), (''operand'', mk_Name ''a'' Load)]])]),
          (''decorator_list'', VList []), (''returns'', VNone), (''type_comment'', VNone)]"
        "VStr ''f''" _ _ "HalsteadVisitor {''Sub''} {(VNone, VStr ''z'')} 1 2 VNone []", OF _ _ _ b]
    by (simp add: halstead_eval) blast
qed

section \<open>Coupling between classes\<close>

lemma quiet_refl: "quiet v v"
  by (simp add: quiet_def)

lemma quiet_trans: "quiet u v \<Longrightarrow> quiet v w \<Longrightarrow> quiet u w"
  by (simp add: quiet_def)

lemma quiet_calm: "quiet v v' \<Longrightarrow> calm D v v'"
  by (simp add: quiet_def calm_def)

lemma calm_mono: "calm D v v' \<Longrightarrow> D \<subseteq> D' \<Longrightarrow> calm D' v v'"
  by (auto simp: calm_def)

lemma calm_trans: "calm D u v \<Longrightarrow> calm D v w \<Longrightarrow> calm D u w"
  unfolding calm_def by (metis option.distinct(1))

lemma foldM_quiet:
  assumes "\<And>x u u'. x \<in> set xs \<Longrightarrow> f u x = Some u' \<Longrightarrow> quiet u u'"
    and "foldM f v xs = Some v'"
  shows "quiet v v'"
  using assms
proof (induction xs arbitrary: v)
  case Nil
  then show ?case by (simp add: quiet_refl)
next
  case (Cons x xs)
  from Cons.prems(2) obtain w where w: "f v x = Some w" and r: "foldM f w xs = Some v'"
    by (auto split: option.splits)
  have "quiet v w" using Cons.prems(1)[OF _ w] by simp
  moreover have "quiet w v'" by (rule Cons.IH[OF _ r]) (use Cons.prems(1) in auto)
  ultimately show ?case by (rule quiet_trans)
qed

lemma foldM_calm:
  assumes "\<And>x u u'. x \<in> set xs \<Longrightarrow> f u x = Some u' \<Longrightarrow> calm D u u'"
    and "foldM f v xs = Some v'"
  shows "calm D v v'"
  using assms
proof (induction xs arbitrary: v)
  case Nil
  then show ?case by (simp add: calm_def)
next
  case (Cons x xs)
  from Cons.prems(2) obtain w where w: "f v x = Some w" and r: "foldM f w xs = Some v'"
    by (auto split: option.splits)
  have "calm D v w" using Cons.prems(1)[OF _ w] by simp
  moreover have "calm D w v'" by (rule Cons.IH[OF _ r]) (use Cons.prems(1) in auto)
  ultimately show ?case by (rule calm_trans)
qed

lemma add_coupling_quiet: "add_coupling v x = Some v' \<Longrightarrow> quiet v v'"
  by (auto simp: add_coupling_def quiet_def update_conv' split: option.splits)

lemma couple_if_class_quiet: "couple_if_class v x = Some v' \<Longrightarrow> quiet v v'"
  by (auto simp: couple_if_class_def quiet_refl dest: add_coupling_quiet
      split: option.splits if_splits)

lemma set_self_attribute_quiet: "set_self_attribute v a c = Some v' \<Longrightarrow> quiet v v'"
  by (auto simp: set_self_attribute_def quiet_def split: option.splits)

lemma visit_Call_callee_quiet: "visit_Call_callee v node = Some v' \<Longrightarrow> quiet v v'"
  by (auto simp: visit_Call_callee_def dest: couple_if_class_quiet split: option.splits)

lemma visit_Attribute_base_quiet: "visit_Attribute_base v node = Some v' \<Longrightarrow> quiet v v'"
  by (auto simp: visit_Attribute_base_def quiet_refl dest: couple_if_class_quiet
      split: option.splits bool.splits)

lemma visit_AnnAssign_target_quiet: "visit_AnnAssign_target v node = Some v' \<Longrightarrow> quiet v v'"
  by (auto simp: visit_AnnAssign_target_def quiet_refl
      dest: couple_if_class_quiet set_self_attribute_quiet quiet_trans
      split: option.splits bool.splits if_splits)

lemma visit_Assign_targets_quiet: "visit_Assign_targets v node = Some v' \<Longrightarrow> quiet v v'"
  unfolding visit_Assign_targets_def
  by (auto split: option.splits elim!: foldM_quiet[rotated])
     (auto simp: quiet_refl dest: add_coupling_quiet set_self_attribute_quiet quiet_trans
      split: option.splits bool.splits if_splits)

lemma visit_FunctionDef_annotations_quiet:
  "visit_FunctionDef_annotations v node = Some v' \<Longrightarrow> quiet v v'"
  unfolding visit_FunctionDef_annotations_def
  by (auto split: option.splits if_splits dest!: foldM_quiet[rotated] couple_if_class_quiet
      intro: quiet_trans)
     (auto simp: quiet_refl dest: couple_if_class_quiet split: option.splits if_splits)


lemma visit_Import_quiet: "visit_Import v node = Some v' \<Longrightarrow> quiet v v'"
  unfolding visit_Import_def
  by (auto split: option.splits elim!: foldM_quiet[rotated])
     (auto simp: quiet_def split: option.splits)

lemma visit_ImportFrom_quiet: "visit_ImportFrom v node = Some v' \<Longrightarrow> quiet v v'"
  unfolding visit_ImportFrom_def
  by (auto split: option.splits elim!: foldM_quiet[rotated])
     (auto simp: quiet_def split: option.splits if_splits)

lemma visit_Module_body_quiet: "visit_Module_body v node = Some v' \<Longrightarrow> quiet v v'"
  unfolding visit_Module_body_def
  by (auto split: option.splits elim!: foldM_quiet[rotated])
     (auto simp: quiet_def dest: visit_Import_quiet visit_ImportFrom_quiet
      split: option.splits if_splits)

lemma visit_ClassDef_enter_effect:
  assumes "visit_ClassDef_enter v node = Some v1"
  shows "\<exists>n. get_str node ''name'' = Some n \<and> current_class v1 = Some n
           \<and> (\<forall>E. E \<noteq> n \<longrightarrow> map_of (class_couplings v1) E = map_of (class_couplings v) E)"
proof -
  from assms obtain n bases where n: "get_str node ''name'' = Some n"
    and f: "foldM (\<lambda>u base. case get_full_name u base of None \<Rightarrow> None
                   | Some base_name \<Rightarrow> couple_if_class u base_name)
            (v\<lparr>current_class := Some n,
               class_couplings := AList.update n {} (class_couplings v),
               self_attributes := (self_attributes v)(n \<mapsto> Map.empty)\<rparr>) bases = Some v1"
    by (auto simp: visit_ClassDef_enter_def split: option.splits)
  have "quiet (v\<lparr>current_class := Some n,
               class_couplings := AList.update n {} (class_couplings v),
               self_attributes := (self_attributes v)(n \<mapsto> Map.empty)\<rparr>) v1"
    by (rule foldM_quiet[OF _ f]) (auto dest: couple_if_class_quiet split: option.splits)
  then show ?thesis using n by (auto simp: quiet_def update_conv')
qed

lemma calm_ClassDef:
  assumes "calm D v1 v2" and "current_class v1 = Some n"
    and "\<And>E. E \<noteq> n \<Longrightarrow> map_of (class_couplings v1) E = map_of (class_couplings v) E"
    and "n \<in> D"
  shows "calm D v (v2\<lparr>current_class := None\<rparr>)"
proof -
  have "map_of (class_couplings v2) E = map_of (class_couplings v) E"
    if "Some E \<noteq> current_class v" "E \<notin> D" for E
  proof -
    from that(2) assms(4) have "E \<noteq> n" by blast
    then have "Some E \<noteq> current_class v1" using assms(2) by simp
    with assms(1) that(2) have "map_of (class_couplings v2) E = map_of (class_couplings v1) E"
      by (simp add: calm_def)
    with assms(3)[OF \<open>E \<noteq> n\<close>] show ?thesis by simp
  qed
  then show ?thesis by (simp add: calm_def)
qed

lemma declared_classes_child:
  assumes "c \<in> set (iter_child_nodes fs)"
  shows "set (declared_classes c) \<subseteq> set (declared_classes (AST name fs))"
proof -
  have "set (declared_classes c) \<subseteq> set (concat (map declared_classes (iter_child_nodes fs)))"
    using assms by auto
  also have "\<dots> \<subseteq> set (declared_classes (AST name fs))"
    by (simp only: declared_classes.simps set_append) blast
  finally show ?thesis .
qed

lemma CBOVisitor_visit_calm:
  "CBOVisitor_visit v t = Some v' \<Longrightarrow> calm (set (declared_classes t)) v v'"
proof (induction v t arbitrary: v' rule: CBOVisitor_visit.induct)
  case (1 v name fs)
  let ?D = "set (declared_classes (AST name fs))"
  have sub: "set (declared_classes c) \<subseteq> ?D" if "c \<in> set (iter_child_nodes fs)" for c
    using that by (rule declared_classes_child)
  have children: "calm ?D u w"
    if "foldM CBOVisitor_visit u (iter_child_nodes fs) = Some w"
      and "\<And>x u u'. x \<in> set (iter_child_nodes fs) \<Longrightarrow> CBOVisitor_visit u x = Some u'
              \<Longrightarrow> calm (set (declared_classes x)) u u'" for u w
  proof (rule foldM_calm[OF _ that(1)])
    fix x a a' assume x: "x \<in> set (iter_child_nodes fs)" and "CBOVisitor_visit a x = Some a'"
    from that(2)[OF this] sub[OF x] show "calm ?D a a'" by (rule calm_mono)
  qed
  have pre: "calm ?D v w"
    if "quiet v u" "calm ?D u w" for u w
    using that quiet_calm calm_trans by blast
  consider (Module) "name = ''Module''" | (Import) "name = ''Import''"
    | (ImportFrom) "name = ''ImportFrom''" | (ClassDef) "name = ''ClassDef''"
    | (FunctionDef) "name = ''FunctionDef''" | (Assign) "name = ''Assign''"
    | (AnnAssign) "name = ''AnnAssign''" | (Call) "name = ''Call''"
    | (Attribute) "name = ''Attribute''"
    | (other) "name \<noteq> ''Module''" "name \<noteq> ''Import''" "name \<noteq> ''ImportFrom''"
        "name \<noteq> ''ClassDef''" "name \<noteq> ''FunctionDef''" "name \<noteq> ''Assign''"
        "name \<noteq> ''AnnAssign''" "name \<noteq> ''Call''" "name \<noteq> ''Attribute''"
    by blast
  then show ?case
  proof cases
    case Module
    with "1.prems" obtain v1 where a: "visit_Module_body v (AST name fs) = Some v1"
      and b: "foldM CBOVisitor_visit v1 (iter_child_nodes fs) = Some v'"
      by (auto split: option.splits)
    show ?thesis
      by (rule pre[OF visit_Module_body_quiet[OF a] children[OF b]])
         (rule "1.IH"(1)[OF Module a])
  next
    case Import
    with "1.prems" show ?thesis by (auto dest!: visit_Import_quiet intro: quiet_calm)
  next
    case ImportFrom
    with "1.prems" show ?thesis by (auto dest!: visit_ImportFrom_quiet intro: quiet_calm)
  next
    case ClassDef
    with "1.prems" obtain v1 v2 where a: "visit_ClassDef_enter v (AST name fs) = Some v1"
      and b: "foldM CBOVisitor_visit v1 (iter_child_nodes fs) = Some v2"
      and c: "v' = v2\<lparr>current_class := None\<rparr>"
      by (auto split: option.splits)
    from visit_ClassDef_enter_effect[OF a] obtain n where n: "get_str (AST name fs) ''name'' = Some n"
      "current_class v1 = Some n"
      "\<And>E. E \<noteq> n \<Longrightarrow> map_of (class_couplings v1) E = map_of (class_couplings v) E"
      by blast
    have nD: "n \<in> ?D" using n(1) ClassDef by simp
    have "calm ?D v1 v2"
      by (rule children[OF b]) (rule "1.IH"(2)[OF _ _ _ _ a], use ClassDef in auto)
    then show ?thesis unfolding c using n(2,3) nD by (rule calm_ClassDef)
  next
    case FunctionDef
    show ?thesis
    proof (cases "in_class v")
      case True
      with FunctionDef "1.prems" obtain v1 where a: "visit_FunctionDef_annotations v (AST name fs) = Some v1"
        and b: "foldM CBOVisitor_visit v1 (iter_child_nodes fs) = Some v'"
        by (auto split: option.splits)
      show ?thesis
        by (rule pre[OF visit_FunctionDef_annotations_quiet[OF a] children[OF b]])
           (rule "1.IH"(3)[OF _ _ _ _ _ True a], use FunctionDef in auto)
    next
      case False
      with FunctionDef "1.prems" have b: "foldM CBOVisitor_visit v (iter_child_nodes fs) = Some v'"
        by auto
      show ?thesis
        by (rule children[OF b]) (rule "1.IH"(4)[OF _ _ _ _ _ False], use FunctionDef in auto)
    qed
  next
    case Assign
    show ?thesis
    proof (cases "in_class v")
      case True
      with Assign "1.prems" obtain v1 where a: "visit_Assign_targets v (AST name fs) = Some v1"
        and b: "foldM CBOVisitor_visit v1 (iter_child_nodes fs) = Some v'"
        by (auto split: option.splits)
      show ?thesis
        by (rule pre[OF visit_Assign_targets_quiet[OF a] children[OF b]])
           (rule "1.IH"(5)[OF _ _ _ _ _ _ True a], use Assign in auto)
    next
      case False
      with Assign "1.prems" have b: "foldM CBOVisitor_visit v (iter_child_nodes fs) = Some v'"
        by auto
      show ?thesis
        by (rule children[OF b]) (rule "1.IH"(6)[OF _ _ _ _ _ _ False], use Assign in auto)
    qed
  next
    case AnnAssign
    show ?thesis
    proof (cases "in_class v")
      case True
      with AnnAssign "1.prems" obtain v1 where a: "visit_AnnAssign_target v (AST name fs) = Some v1"
        and b: "foldM CBOVisitor_visit v1 (iter_child_nodes fs) = Some v'"
        by (auto split: option.splits)
      show ?thesis
        by (rule pre[OF visit_AnnAssign_target_quiet[OF a] children[OF b]])
           (rule "1.IH"(7)[OF _ _ _ _ _ _ _ True a], use AnnAssign in auto)
    next
      case False
      with AnnAssign "1.prems" show ?thesis by (auto simp: calm_def)
    qed
  next
    case Call
    show ?thesis
    proof (cases "in_class v")
      case True
      with Call "1.prems" obtain v1 where a: "visit_Call_callee v (AST name fs) = Some v1"
        and b: "foldM CBOVisitor_visit v1 (iter_child_nodes fs) = Some v'"
        by (auto split: option.splits)
      show ?thesis
        by (rule pre[OF visit_Call_callee_quiet[OF a] children[OF b]])
           (rule "1.IH"(8)[OF _ _ _ _ _ _ _ _ True a], use Call in auto)
    next
      case False
      with Call "1.prems" have b: "foldM CBOVisitor_visit v (iter_child_nodes fs) = Some v'"
        by auto
      show ?thesis
        by (rule children[OF b]) (rule "1.IH"(9)[OF _ _ _ _ _ _ _ _ False], use Call in auto)
    qed
  next
    case Attribute
    show ?thesis
    proof (cases "in_class v")
      case True
      with Attribute "1.prems" obtain v1 where a: "visit_Attribute_base v (AST name fs) = Some v1"
        and b: "foldM CBOVisitor_visit v1 (iter_child_nodes fs) = Some v'"
        by (auto split: option.splits)
      show ?thesis
        by (rule pre[OF visit_Attribute_base_quiet[OF a] children[OF b]])
           (rule "1.IH"(10)[OF _ _ _ _ _ _ _ _ _ True a], use Attribute in auto)
    next
      case False
      with Attribute "1.prems" have b: "foldM CBOVisitor_visit v (iter_child_nodes fs) = Some v'"
        by auto
      show ?thesis
        by (rule children[OF b]) (rule "1.IH"(11)[OF _ _ _ _ _ _ _ _ _ False], use Attribute in auto)
    qed
  next
    case other
    with "1.prems" have b: "foldM CBOVisitor_visit v (iter_child_nodes fs) = Some v'"
      by auto
    show ?thesis
      by (rule children[OF b]) (rule "1.IH"(12)[OF other])
  qed
qed simp_all

text \<open>
  C9. The visit of a class definition ends with the cursor at \<open>None\<close>, whatever it was
  before. The statements visited after it leave the cursor there, and leave the couplings
  of the enclosing class as they are, whatever they refer to. (A later class definition
  records couplings under its own name, hence the condition on the names declared in these
  statements.)
\<close>

theorem cursor_lost_after_nested_class:
  assumes "CBOVisitor_visit v (AST ''ClassDef'' fs) = Some v1"
    and "foldM CBOVisitor_visit v1 rest = Some v2"
    and "\<forall>s \<in> set rest. enclosing \<notin> set (declared_classes s)"
  shows "current_class v1 = None \<and> current_class v2 = None
         \<and> map_of (class_couplings v2) enclosing = map_of (class_couplings v1) enclosing"
proof -
  have c1: "current_class v1 = None"
    using assms(1) by (auto split: option.splits)
  have "calm (\<Union>s \<in> set rest. set (declared_classes s)) v1 v2"
  proof (rule foldM_calm[OF _ assms(2)])
    fix x u u' assume x: "x \<in> set rest" and "CBOVisitor_visit u x = Some u'"
    from CBOVisitor_visit_calm[OF this(2)]
    show "calm (\<Union>s \<in> set rest. set (declared_classes s)) u u'"
      by (rule calm_mono) (use x in blast)
  qed
  then show ?thesis using c1 assms(3) by (auto simp: calm_def)
qed

theorem cursor_lost_after_nested_class_witness:
  "CBOVisitor_visit inside_Outer class_Inner = Some after_Inner
   \<and> foldM CBOVisitor_visit after_Inner [helper_is_Other] = Some after_Inner
   \<and> current_class after_Inner = None
   \<and> map_of (class_couplings after_Inner) ''Outer'' = Some {}
   \<and> is_class_name inside_Outer (Some ''Other'')"
proof -
  have a: "CBOVisitor_visit inside_Outer (AST ''ClassDef'' [(''name'', VStr ''Inner''),
       (''bases'', VList []), (''keywords'', VList []), (''body'', VList [mk_Pass]),
       (''decorator_list'', VList [])]) = Some after_Inner"
    by (simp add: class_Inner_def cbo_eval inside_Outer_def after_Inner_def)
  have b: "foldM CBOVisitor_visit after_Inner [helper_is_Other] = Some after_Inner"
    by (simp add: helper_is_Other_def cbo_eval inside_Outer_def after_Inner_def)
  have d: "\<forall>s \<in> set [helper_is_Other]. ''Outer'' \<notin> set (declared_classes s)"
    by (simp add: helper_is_Other_def cbo_eval)
  from cursor_lost_after_nested_class [OF a b d] a b show ?thesis
    by (simp add: class_Inner_def helper_is_Other_def cbo_eval inside_Outer_def
        after_Inner_def some_builtin_types_def)
qed

text \<open>
  In the whole program the reference to \<^verbatim>\<open>Other\<close> after the nested class is not counted
  for \<^verbatim>\<open>Outer\<close>; before the nested class it is.
\<close>

lemma outer_and_inner_cbo:
  "analyze_cbo some_builtin_types outer_and_inner [''Other'', ''Outer'', ''Inner'']
   = Some [(''Other'', 0, {}), (''Outer'', 0, {}), (''Inner'', 0, {})]"
  by (simp add: outer_and_inner_def class_Inner_def helper_is_Other_def cbo_eval
      some_builtin_types_def)

lemma outer_helper_first_cbo:
  "analyze_cbo some_builtin_types outer_helper_first [''Other'', ''Outer'', ''Inner'']
   = Some [(''Other'', 0, {}), (''Outer'', 1, {''Other''}), (''Inner'', 0, {})]"
  by (simp add: outer_helper_first_def class_Inner_def helper_is_Other_def cbo_eval
      some_builtin_types_def)

text \<open>
  C5. For the program with the empty class \<^verbatim>\<open>ClassA\<close>, the class \<^verbatim>\<open>ClassB\<close> holding a class
  variable constructed from \<^verbatim>\<open>ClassA\<close>, and the class \<^verbatim>\<open>ClassC\<close> storing an instance of
  \<^verbatim>\<open>ClassB\<close> on itself, \<^verbatim>\<open>analyze_cbo\<close> gives 0 for \<^verbatim>\<open>ClassA\<close>, 1 for \<^verbatim>\<open>ClassB\<close>, coupled to
  \<^verbatim>\<open>ClassA\<close>, and 1 for \<^verbatim>\<open>ClassC\<close>, coupled to \<^verbatim>\<open>ClassB\<close> only, whatever the built-in types
  are. The list of all classes is the one \<^verbatim>\<open>AllClassesVisitor\<close> collects.
\<close>

theorem classes_A_B_C_cbo:
  "AllClassesVisitor_visit [] classes_A_B_C = Some [''ClassA'', ''ClassB'', ''ClassC'']
   \<and> analyze_cbo builtin_types classes_A_B_C [''ClassA'', ''ClassB'', ''ClassC'']
   = Some [(''ClassA'', 0, {}), (''ClassB'', 1, {''ClassA''}), (''ClassC'', 1, {''ClassB''})]"
  by (simp add: classes_A_B_C_def cbo_eval)

text \<open>
  C1 does not hold of the code. In \<open>tree_and_leaf\<close> the call \<^verbatim>\<open>Tree.Leaf()\<close> inside \<^verbatim>\<open>Tree\<close>
  is recorded as the coupling \<^verbatim>\<open>Tree.Leaf\<close>, since \<^verbatim>\<open>is_class_name\<close> skips the part \<^verbatim>\<open>Tree\<close>,
  the current class, and accepts \<^verbatim>\<open>Leaf\<close>. The final reduction calls \<^verbatim>\<open>is_class_name\<close> again
  when the cursor is \<open>None\<close>, so it takes the first part, \<^verbatim>\<open>Tree\<close>: the coupling set of
  \<^verbatim>\<open>Tree\<close> is \<open>{Tree}\<close>.
\<close>

theorem own_name_in_coupling_set:
  "AllClassesVisitor_visit [] tree_and_leaf = Some [''Tree'', ''Leaf'']
   \<and> analyze_cbo some_builtin_types tree_and_leaf [''Tree'', ''Leaf'']
   = Some [(''Tree'', 1, {''Tree''}), (''Leaf'', 0, {})]"
  by (simp add: tree_and_leaf_def cbo_eval some_builtin_types_def)

section \<open>The complexities recorded are positive\<close>

text \<open>
  On a tree as the parser builds it, the counter of a visitor never decreases, and every
  function and class it records has a complexity of at least 1: the \<open>real_complexity\<close> of
  a class record made by \<^verbatim>\<open>visit_ClassDef\<close> is a positive count, as the statement on the
  derived complexity of a class supposes.
\<close>

lemma grows_refl: "grows v v"
  by (simp add: grows_def)

lemma grows_trans: "grows u v \<Longrightarrow> grows v w \<Longrightarrow> grows u w"
  unfolding grows_def by (intro conjI ballI; force)

lemma foldM_grows:
  assumes "\<And>x u u'. x \<in> set xs \<Longrightarrow> f u x = Some u' \<Longrightarrow> grows u u'"
    and "foldM f v xs = Some v'"
  shows "grows v v'"
  using assms
proof (induction xs arbitrary: v)
  case Nil
  then show ?case by (simp add: grows_refl)
next
  case (Cons x xs)
  from Cons.prems(2) obtain w where w: "f v x = Some w" and r: "foldM f w xs = Some v'"
    by (auto split: option.splits)
  have "grows v w" using Cons.prems(1)[OF _ w] by simp
  moreover have "grows w v'" by (rule Cons.IH[OF _ r]) (use Cons.prems(1) in auto)
  ultimately show ?case by (rule grows_trans)
qed

lemma those_map_Some:
  "those (map f xs) = Some ys \<Longrightarrow> list_all2 (\<lambda>x y. f x = Some y) xs ys"
  by (induction xs arbitrary: ys) (auto split: option.splits)

lemma FunctionDef_loop_sums:
  "FunctionDef_loop visitors
     = (concat (map CV_functions visitors), 1 + sum_list (map CV_complexity visitors))"
proof -
  have "fold (\<lambda>visitor (closures, body_complexity).
             (closures @ CV_functions visitor, body_complexity + CV_complexity visitor))
          visitors (cl, bc)
        = (cl @ concat (map CV_functions visitors), bc + sum_list (map CV_complexity visitors))"
    for cl bc
    by (induction visitors arbitrary: cl bc) auto
  then show ?thesis by (simp add: FunctionDef_loop_def)
qed

lemma ClassDef_loop_sums:
  "ClassDef_loop lineno visitors
     = (concat (map CV_functions visitors),
        1 + sum_list (map (\<lambda>visitor. CV_complexity visitor + functions_complexity visitor
                              + int (length (CV_functions visitor))) visitors),
        Some lineno # map CV_max_line visitors,
        concat (map CV_classes visitors))"
proof -
  have "fold (\<lambda>visitor (methods, body_complexity, visitors_max_lines, inner_classes).
             (methods @ CV_functions visitor,
              body_complexity
                + (CV_complexity visitor + functions_complexity visitor
                   + int (length (CV_functions visitor))),
              visitors_max_lines @ [CV_max_line visitor],
              inner_classes @ CV_classes visitor))
          visitors (ms, bc, ls, cs)
        = (ms @ concat (map CV_functions visitors),
        bc + sum_list (map (\<lambda>visitor. CV_complexity visitor + functions_complexity visitor
                              + int (length (CV_functions visitor))) visitors),
        ls @ map CV_max_line visitors,
        cs @ concat (map CV_classes visitors))"
    for ms bc ls cs
    by (induction visitors arbitrary: ms bc ls cs) auto
  then show ?thesis by (simp add: ClassDef_loop_def)
qed

lemma sum_list_nonneg_all: "list_all (\<lambda>x. 0 \<le> f x) xs \<Longrightarrow> 0 \<le> sum_list (map f xs)"
  for f :: "'a \<Rightarrow> int"
  by (induction xs) auto

lemma nodes_child:
  assumes "c \<in> set (iter_child_nodes fs)"
  shows "set (nodes c) \<subseteq> set (nodes (AST name fs))"
proof -
  have "set (nodes c) \<subseteq> set (concat (map nodes (iter_child_nodes fs)))"
    using assms by auto
  also have "\<dots> \<subseteq> set (nodes (AST name fs))"
    by (simp only: nodes.simps set_simps) blast
  finally show ?thesis .
qed

lemma BoolOps_child:
  "BoolOps_have_operands (AST name fs) \<Longrightarrow> c \<in> set (iter_child_nodes fs)
     \<Longrightarrow> BoolOps_have_operands c"
  unfolding BoolOps_have_operands_def list_all_iff using nodes_child by blast

lemma iter_child_nodes_items:
  "map_of fs a = Some (VList items) \<Longrightarrow> x \<in> set items \<Longrightarrow> is_AST x
     \<Longrightarrow> x \<in> set (iter_child_nodes fs)"
  by (induction fs rule: iter_child_nodes.induct) (auto split: if_splits)

lemma body_item_child:
  assumes "get_list (AST name fs) a = Some body" and "x \<in> set body" and "is_AST x"
  shows "x \<in> set (iter_child_nodes fs)"
proof -
  from assms(1) have "map_of fs a = Some (VList body)"
    by (cases "map_of fs a"; cases "the (map_of fs a)") (auto simp: get_list_def)
  then show ?thesis using assms(2,3) by (rule iter_child_nodes_items)
qed

lemma decision_points_nonneg:
  "decision_points name node = Some d \<Longrightarrow> name \<noteq> ''BoolOp'' \<or> operands node \<noteq> []
     \<Longrightarrow> 0 \<le> d"
  by (auto simp: decision_points_def operands_def split: if_splits option.splits)


lemma visit_Some_is_AST: "ComplexityVisitor_visit v x = Some y \<Longrightarrow> is_AST x"
  by (cases x) auto

lemma subvisitors_grow:
  assumes "those (map (ComplexityVisitor_visit v0) body) = Some visitors"
    and "\<And>x y. x \<in> set body \<Longrightarrow> ComplexityVisitor_visit v0 x = Some y \<Longrightarrow> grows v0 y"
  shows "list_all (grows v0) visitors"
proof -
  from those_map_Some[OF assms(1)]
  have "list_all2 (\<lambda>x y. ComplexityVisitor_visit v0 x = Some y) body visitors" .
  then show ?thesis using assms(2)
    by (induction rule: list_all2_induct) auto
qed

lemma visit_FunctionDef_record_grows:
  assumes "visit_FunctionDef_record v node visitors = Some v'"
    and "list_all (\<lambda>y. 0 \<le> CV_complexity y) visitors"
  shows "grows v v'"
proof -
  have "0 \<le> sum_list (map CV_complexity visitors)"
    using assms(2) by (rule sum_list_nonneg_all)
  then show ?thesis using assms(1)
    by (auto simp: visit_FunctionDef_record_def FunctionDef_loop_sums grows_def Let_def
        split: option.splits if_splits)
qed

lemma functions_complexity_plus_length:
  "functions_complexity y + int (length (CV_functions y))
     = sum_list (map Function_complexity (CV_functions y))"
  by (simp add: functions_complexity_def)

lemma visit_ClassDef_record_grows:
  assumes "visit_ClassDef_record v node visitors = Some v'"
    and "list_all (\<lambda>y. 0 \<le> CV_complexity y
            \<and> list_all (\<lambda>f. 0 \<le> Function_complexity f) (CV_functions y)) visitors"
  shows "grows v v'"
proof -
  have "list_all (\<lambda>y. 0 \<le> CV_complexity y + functions_complexity y
                              + int (length (CV_functions y))) visitors"
    using assms(2) unfolding list_all_iff
  proof (intro ballI)
    fix y assume a: "\<forall>y\<in>set visitors. 0 \<le> CV_complexity y
        \<and> (\<forall>f\<in>set (CV_functions y). 0 \<le> Function_complexity f)" and y: "y \<in> set visitors"
    then have "0 \<le> sum_list (map Function_complexity (CV_functions y))"
      by (intro sum_list_nonneg_all) (simp add: list_all_iff)
    with a y functions_complexity_plus_length[of y]
    show "0 \<le> CV_complexity y + functions_complexity y + int (length (CV_functions y))"
      by force
  qed
  then have "0 \<le> sum_list (map (\<lambda>visitor. CV_complexity visitor + functions_complexity visitor
                              + int (length (CV_functions visitor))) visitors)"
    by (rule sum_list_nonneg_all)
  then show ?thesis using assms(1)
    by (auto simp: visit_ClassDef_record_def ClassDef_loop_sums grows_def Let_def
        split: option.splits if_splits)
qed

lemma note_lineno_grows: "note_lineno v node = Some v1 \<Longrightarrow> grows v v1"
  by (auto simp: note_lineno_def set_max_line_def grows_def split: option.splits if_splits)

lemma visit_grows:
  "ComplexityVisitor_visit v t = Some v' \<Longrightarrow> BoolOps_have_operands t \<Longrightarrow> grows v v'"
proof (induction v t arbitrary: v' rule: ComplexityVisitor_visit.induct)
  case (1 v name fs)
  note wf = "1.prems"(2)
  have child_wf: "BoolOps_have_operands c" if "c \<in> set (iter_child_nodes fs)" for c
    using wf that by (rule BoolOps_child)
  consider (Assert) "name = ''Assert''"
    | (FunctionDef) "name \<noteq> ''Assert''" "name = ''FunctionDef'' \<or> name = ''AsyncFunctionDef''"
    | (ClassDef) "name \<noteq> ''Assert''" "\<not> (name = ''FunctionDef'' \<or> name = ''AsyncFunctionDef'')"
        "name = ''ClassDef''"
    | (other) "name \<noteq> ''Assert''" "\<not> (name = ''FunctionDef'' \<or> name = ''AsyncFunctionDef'')"
        "name \<noteq> ''ClassDef''"
    by blast
  then show ?case
  proof cases
    case Assert
    with "1.prems"(1) show ?thesis by (auto simp: grows_def)
  next
    case FunctionDef
    let ?v0 = "ComplexityVisitor_init False None False (CV_no_assert v)"
    from "1.prems"(1) FunctionDef obtain body visitors
      where body: "get_list (AST name fs) ''body'' = Some body"
        and vs: "those (map (ComplexityVisitor_visit ?v0) body) = Some visitors"
        and r: "visit_FunctionDef_record v (AST name fs) visitors = Some v'"
      by (auto split: option.splits)
    have "list_all (grows ?v0) visitors"
    proof (rule subvisitors_grow[OF vs])
      fix x y assume x: "x \<in> set body" and y: "ComplexityVisitor_visit ?v0 x = Some y"
      from body_item_child[OF body x visit_Some_is_AST[OF y]]
      have "BoolOps_have_operands x" by (rule child_wf)
      with "1.IH"(1)[OF FunctionDef body x y] show "grows ?v0 y" .
    qed
    then have "list_all (\<lambda>y. 0 \<le> CV_complexity y) visitors"
      by (auto simp: list_all_iff grows_def ComplexityVisitor_init_def)
    with r show ?thesis by (rule visit_FunctionDef_record_grows)
  next
    case ClassDef
    from "1.prems"(1) ClassDef obtain classname body visitors
      where cn: "get_str (AST name fs) ''name'' = Some classname"
        and body: "get_list (AST name fs) ''body'' = Some body"
        and vs: "those (map (ComplexityVisitor_visit
            (ComplexityVisitor_init True (Some classname) False (CV_no_assert v))) body) = Some visitors"
        and r: "visit_ClassDef_record v (AST name fs) visitors = Some v'"
      by (auto split: option.splits)
    let ?v0 = "ComplexityVisitor_init True (Some classname) False (CV_no_assert v)"
    have "list_all (grows ?v0) visitors"
    proof (rule subvisitors_grow[OF vs])
      fix x y assume x: "x \<in> set body" and y: "ComplexityVisitor_visit ?v0 x = Some y"
      from body_item_child[OF body x visit_Some_is_AST[OF y]]
      have "BoolOps_have_operands x" by (rule child_wf)
      with "1.IH"(2)[OF ClassDef refl cn body x y] show "grows ?v0 y" .
    qed
    then have "list_all (\<lambda>y. 0 \<le> CV_complexity y
            \<and> list_all (\<lambda>f. 0 \<le> Function_complexity f) (CV_functions y)) visitors"
      by (fastforce simp: list_all_iff grows_def ComplexityVisitor_init_def)
    with r show ?thesis by (rule visit_ClassDef_record_grows)
  next
    case other
    from "1.prems"(1) other obtain v1 d where v1: "note_lineno v (AST name fs) = Some v1"
      and d: "decision_points name (AST name fs) = Some d"
      and f: "foldM ComplexityVisitor_visit (v1\<lparr>CV_complexity := CV_complexity v1 + d\<rparr>)
                (iter_child_nodes fs) = Some v'"
      by (auto split: option.splits)
    have "name \<noteq> ''BoolOp'' \<or> operands (AST name fs) \<noteq> []"
      using wf by (simp add: BoolOps_have_operands_def)
    with d have "0 \<le> d" by (rule decision_points_nonneg)
    then have a: "grows v (v1\<lparr>CV_complexity := CV_complexity v1 + d\<rparr>)"
      using note_lineno_grows[OF v1] by (simp add: grows_def)
    have "grows (v1\<lparr>CV_complexity := CV_complexity v1 + d\<rparr>) v'"
    proof (rule foldM_grows[OF _ f])
      fix x u u' assume x: "x \<in> set (iter_child_nodes fs)"
        and u: "ComplexityVisitor_visit u x = Some u'"
      from "1.IH"(3)[OF other v1 d x u child_wf[OF x]] show "grows u u'" .
    qed
    with a show ?thesis by (rule grows_trans)
  qed
qed simp_all

lemma real_complexity_positive:
  assumes "ComplexityVisitor_visit v t = Some v'" and "BoolOps_have_operands t"
    and "c \<in> set (CV_classes v')" and "c \<notin> set (CV_classes v)"
  shows "1 \<le> Class_real_complexity c"
  using visit_grows[OF assms(1,2)] assms(3,4) by (auto simp: grows_def)

end
